theory Spec2Isabelle
  imports Main
begin

section \<open>Python strings\<close>

text \<open>
  A Python \<open>str\<close> is modelled as a \<open>string\<close>, whose characters are the code points
  U+0000 to U+00FF. The character classes, case mapping, whitespace and line
  boundaries below are those of Python on these code points: \<open>[a-z]\<close>, \<open>[A-Z]\<close> and
  \<open>\d\<close> of \<open>re\<close> hold ASCII characters only, while \<open>\w\<close>, \<open>\s\<close>, \<open>str.isspace\<close>,
  \<open>str.isdigit\<close>, \<open>str.lower\<close> and \<open>str.upper\<close> also reach the upper half.
\<close>

definition ascii_lowercase :: string where
  "ascii_lowercase = ''abcdefghijklmnopqrstuvwxyz''"

definition ascii_uppercase :: string where
  "ascii_uppercase = ''ABCDEFGHIJKLMNOPQRSTUVWXYZ''"

definition ascii_digits :: string where
  "ascii_digits = ''0123456789''"

definition latin1_uppercase :: string where
  \<comment> \<open>the upper-case letters U+00C0 to U+00DE (U+00D7 is the multiplication sign)\<close>
  "latin1_uppercase =
     [CHR 0xC0, CHR 0xC1, CHR 0xC2, CHR 0xC3, CHR 0xC4, CHR 0xC5, CHR 0xC6, CHR 0xC7,
      CHR 0xC8, CHR 0xC9, CHR 0xCA, CHR 0xCB, CHR 0xCC, CHR 0xCD, CHR 0xCE, CHR 0xCF,
      CHR 0xD0, CHR 0xD1, CHR 0xD2, CHR 0xD3, CHR 0xD4, CHR 0xD5, CHR 0xD6, CHR 0xD8,
      CHR 0xD9, CHR 0xDA, CHR 0xDB, CHR 0xDC, CHR 0xDD, CHR 0xDE]"

definition latin1_lowercase :: string where
  \<comment> \<open>their lower-case forms U+00E0 to U+00FE (U+00F7 is the division sign), in the
      same order\<close>
  "latin1_lowercase =
     [CHR 0xE0, CHR 0xE1, CHR 0xE2, CHR 0xE3, CHR 0xE4, CHR 0xE5, CHR 0xE6, CHR 0xE7,
      CHR 0xE8, CHR 0xE9, CHR 0xEA, CHR 0xEB, CHR 0xEC, CHR 0xED, CHR 0xEE, CHR 0xEF,
      CHR 0xF0, CHR 0xF1, CHR 0xF2, CHR 0xF3, CHR 0xF4, CHR 0xF5, CHR 0xF6, CHR 0xF8,
      CHR 0xF9, CHR 0xFA, CHR 0xFB, CHR 0xFC, CHR 0xFD, CHR 0xFE]"

definition latin1_alnum :: string where
  \<comment> \<open>the other code points from U+0080 on that \<open>\w\<close> matches: the ordinal indicators,
      the superscript digits, the micro sign, the fractions, sharp s and y with diaeresis\<close>
  "latin1_alnum =
     [CHR 0xAA, CHR 0xB2, CHR 0xB3, CHR 0xB5, CHR 0xB9, CHR 0xBA, CHR 0xBC, CHR 0xBD,
      CHR 0xBE, CHR 0xDF, CHR 0xFF]"

definition superscript_digits :: string where
  \<comment> \<open>the code points from U+0080 on for which \<open>str.isdigit\<close> holds\<close>
  "superscript_digits = [CHR 0xB2, CHR 0xB3, CHR 0xB9]"

definition whitespace :: string where
  \<comment> \<open>the code points for which \<open>str.isspace\<close> holds; \<open>\s\<close> of \<open>re\<close> agrees\<close>
  "whitespace = [CHR 0x09, CHR 0x0A, CHR 0x0B, CHR 0x0C, CHR 0x0D,
                 CHR 0x1C, CHR 0x1D, CHR 0x1E, CHR 0x1F, CHR '' '', CHR 0x85, CHR 0xA0]"

definition is_lower :: "char \<Rightarrow> bool" where
  \<comment> \<open>\<open>[a-z]\<close>\<close>
  "is_lower c = (c \<in> set ascii_lowercase)"

definition is_upper :: "char \<Rightarrow> bool" where
  \<comment> \<open>\<open>[A-Z]\<close>\<close>
  "is_upper c = (c \<in> set ascii_uppercase)"

definition is_digit :: "char \<Rightarrow> bool" where
  \<comment> \<open>\<open>\d\<close>, \<open>[0-9]\<close>\<close>
  "is_digit c = (c \<in> set ascii_digits)"

definition is_alpha :: "char \<Rightarrow> bool" where
  \<comment> \<open>\<open>[A-Za-z]\<close>\<close>
  "is_alpha c = (is_lower c \<or> is_upper c)"

definition isspace :: "char \<Rightarrow> bool" where
  "isspace c = (c \<in> set whitespace)"

definition is_word :: "char \<Rightarrow> bool" where
  \<comment> \<open>\<open>\w\<close>\<close>
  "is_word c = (is_lower c \<or> is_upper c \<or> is_digit c \<or> c = CHR ''_''
                \<or> c \<in> set latin1_uppercase \<or> c \<in> set latin1_lowercase \<or> c \<in> set latin1_alnum)"

definition lower_char :: "char \<Rightarrow> char" where
  "lower_char c = (case map_of (zip (ascii_uppercase @ latin1_uppercase)
                                    (ascii_lowercase @ latin1_lowercase)) c of
                     Some l \<Rightarrow> l | None \<Rightarrow> c)"

definition upper_char :: "char \<Rightarrow> char" where
  "upper_char c = (case map_of (zip (ascii_lowercase @ latin1_lowercase)
                                    (ascii_uppercase @ latin1_uppercase)) c of
                     Some u \<Rightarrow> u | None \<Rightarrow> c)"

definition str_lower :: "string \<Rightarrow> string" where
  "str_lower s = map lower_char s"

definition str_upper :: "string \<Rightarrow> string" where
  \<comment> \<open>\<open>s.upper()\<close>: sharp s becomes \<open>SS\<close>. The upper-case forms of the micro sign and of
      y with diaeresis lie above U+00FF; they are left as they are, and either way the
      result is no ASCII text, which is all the lookup of the services asks of it.\<close>
  "str_upper s = concat (map (\<lambda>c. if c = CHR 0xDF then ''SS'' else [upper_char c]) s)"

definition strip_chars :: "(char \<Rightarrow> bool) \<Rightarrow> string \<Rightarrow> string" where
  "strip_chars P s = rev (dropWhile P (rev (dropWhile P s)))"

definition strip :: "string \<Rightarrow> string" where
  \<comment> \<open>\<open>s.strip()\<close>\<close>
  "strip s = strip_chars isspace s"

definition startswith :: "string \<Rightarrow> string \<Rightarrow> bool" where
  "startswith s p = (take (length p) s = p)"

definition endswith :: "string \<Rightarrow> string \<Rightarrow> bool" where
  "endswith s p = (length p \<le> length s \<and> drop (length s - length p) s = p)"

fun contains :: "string \<Rightarrow> string \<Rightarrow> bool" where
  \<comment> \<open>\<open>p in s\<close>: \<open>p\<close> occurs in \<open>s\<close> as a contiguous run\<close>
  "contains [] p = (p = [])"
| "contains (c # cs) p = (startswith (c # cs) p \<or> contains cs p)"

fun replace_all :: "string \<Rightarrow> string \<Rightarrow> string \<Rightarrow> string" where
  \<comment> \<open>\<open>s.replace(old, new)\<close> for a one-character \<open>old\<close>, the only use in the services\<close>
  "replace_all [] old new = []"
| "replace_all (c # cs) old new =
     (if [c] = old then new @ replace_all cs old new else c # replace_all cs old new)"

definition isdigit :: "string \<Rightarrow> bool" where
  \<comment> \<open>\<open>s.isdigit()\<close>: false on the empty string\<close>
  "isdigit s = (s \<noteq> [] \<and> list_all (\<lambda>c. is_digit c \<or> c \<in> set superscript_digits) s)"

fun split_on :: "char \<Rightarrow> string \<Rightarrow> string list" where
  \<comment> \<open>\<open>s.split(sep)\<close> for a one-character separator: always at least one piece\<close>
  "split_on sep [] = [[]]"
| "split_on sep (c # cs) =
     (case split_on sep cs of
        [] \<Rightarrow> [[c]]
      | w # ws \<Rightarrow> if c = sep then [] # w # ws else (c # w) # ws)"

fun split_ws :: "string \<Rightarrow> string list" where
  \<comment> \<open>\<open>s.split()\<close>: the maximal runs of non-whitespace characters\<close>
  "split_ws [] = []"
| "split_ws (c # cs) =
     (if isspace c then split_ws cs
      else (case cs of
              [] \<Rightarrow> [[c]]
            | d # ds \<Rightarrow> if isspace d then [c] # split_ws cs
                       else (case split_ws cs of [] \<Rightarrow> [[c]] | w # ws \<Rightarrow> (c # w) # ws)))"

function str_nat :: "nat \<Rightarrow> string" where
  \<comment> \<open>\<open>str(n)\<close> for a non-negative integer, as an f-string formats an index\<close>
  "str_nat n = (if n < 10 then [ascii_digits ! n]
                else str_nat (n div 10) @ [ascii_digits ! (n mod 10)])"
  by pat_completeness auto
termination
  by (relation "measure id") auto

fun sub_runs :: "(char \<Rightarrow> bool) \<Rightarrow> string \<Rightarrow> string \<Rightarrow> string" where
  \<comment> \<open>\<open>re.sub(r'[P]+', r, s)\<close>: every maximal run of characters of the class becomes \<open>r\<close>\<close>
  "sub_runs P r [] = []"
| "sub_runs P r [c] = (if P c then r else [c])"
| "sub_runs P r (c # d # cs) =
     (if P c then (if P d then sub_runs P r (d # cs) else r @ sub_runs P r (d # cs))
      else c # sub_runs P r (d # cs))"

section \<open>services/ai\_service.py\<close>

datatype error =
    ReError string
  | ValueError string
  | HTTPException nat string
  | LibraryError string

text \<open>
  The text-generation pipeline of \<open>transformers\<close> is an external capability: the
  model takes it as a function from the prompt and \<open>max_length\<close> to the generated text
  (\<open>result[0]["generated_text"]\<close>, or \<open>str(result)\<close>), or to the exception the call or
  the extraction raises.
\<close>

record ai_service =
  modernizer :: "(string \<Rightarrow> nat \<Rightarrow> error + string) option"
  has_transformers :: bool

definition invalid_patterns :: "string list" where
  \<comment> \<open>each entry \<open>w\<close> stands for the source's pattern \<open>.*w.*\<close>\<close>
  "invalid_patterns =
     [''customeromer'', ''identifierifier'', ''addressess'',
      ''numberber'', ''the'', ''a'', ''an'',
      ''column'', ''field'', ''value'', ''name'',
      ''legacy'', ''original'', ''old'']"

definition search_ignorecase :: "string \<Rightarrow> string \<Rightarrow> bool" where
  \<comment> \<open>\<open>re.search(r'.*w.*', name, re.IGNORECASE)\<close>: both \<open>.*\<close> may match nothing, so the
      search succeeds exactly when \<open>w\<close> occurs in \<open>name\<close> up to case\<close>
  "search_ignorecase w name = contains (str_lower name) (str_lower w)"

definition snake_char :: "char \<Rightarrow> bool" where
  \<comment> \<open>\<open>[a-z0-9_]\<close>\<close>
  "snake_char c = (is_lower c \<or> is_digit c \<or> c = CHR ''_'')"

definition match_snake :: "string \<Rightarrow> bool" where
  \<comment> \<open>\<open>re.match(r'^[a-z][a-z0-9_]*$', name)\<close>; \<open>$\<close> also matches before a final newline\<close>
  "match_snake name =
     (case name of
        [] \<Rightarrow> False
      | c # cs \<Rightarrow> is_lower c \<and>
          (let rest = dropWhile snake_char cs in rest = [] \<or> rest = ''\<newline>''))"

definition validate_column_name :: "string \<Rightarrow> string \<Rightarrow> bool" where
  "validate_column_name name original =
     (if name = [] \<or> length name < 2 \<or> length name > 40 then False
      else if list_ex (\<lambda>pattern. search_ignorecase pattern name) invalid_patterns then False
      else if \<not> match_snake name then False
      else if str_lower name = str_lower original then False
      else True)"

fun sub_camel :: "string \<Rightarrow> string" where
  \<comment> \<open>\<open>re.sub(r'([a-z])([A-Z])', r'\1_\2', s)\<close>\<close>
  "sub_camel (a # b # cs) =
     (if is_lower a \<and> is_upper b then a # CHR ''_'' # b # sub_camel cs
      else a # sub_camel (b # cs))"
| "sub_camel cs = cs"

definition to_snake_case :: "string \<Rightarrow> string" where
  "to_snake_case s0 =
     (if s0 = [] \<or> strip s0 = [] then ''column''
      else
        let s = strip s0;
            s = sub_camel s;
            s = map (\<lambda>c. if is_word c \<or> isspace c then c else CHR ''_'') s;
            s = sub_runs isspace ''_'' s;
            s = sub_runs (\<lambda>c. c = CHR ''_'') ''_'' s;
            r = strip_chars (\<lambda>c. c = CHR ''_'') (str_lower s)
        in if r = [] then ''column'' else r)"

definition as400_mappings :: "(string \<times> string) list" where
  "as400_mappings =
     [(''CUS_ID'', ''customer_id''), (''CUSTID'', ''customer_id''), (''CUSTNO'', ''customer_number''),
      (''CUSTNUM'', ''customer_number''), (''CUST#'', ''customer_id''), (''CUSTNAME'', ''customer_name''),
      (''CUSTNAM'', ''customer_name''), (''CUSTNM'', ''customer_name''), (''NME'', ''name''),
      (''EMPNO'', ''employee_number''), (''EMPNUM'', ''employee_number''), (''EMP#'', ''employee_id''),
      (''EMPNAME'', ''employee_name''), (''EMPNAM'', ''employee_name''), (''EMPNM'', ''employee_name''),
      (''ADDR1'', ''address_line_1''), (''ADDR2'', ''address_line_2''), (''STREET'', ''street_address''),
      (''CITY'', ''city''), (''STATE'', ''state''), (''ZIP'', ''zip_code''), (''ZIPCODE'', ''zip_code''),
      (''POSTAL'', ''postal_code''), (''COUNTRY'', ''country''), (''CREDITLMT'', ''credit_limit''),
      (''BALANCE'', ''account_balance''), (''AMT'', ''amount''), (''AMOUNT'', ''amount''), (''PRICE'', ''price''),
      (''HIREDATE'', ''hire_date''), (''CREATEDT'', ''create_date''), (''MODDT'', ''modify_date''),
      (''SHIPDT'', ''ship_date''), (''ORDERDT'', ''order_date''), (''PARTNO'', ''part_number''),
      (''ITEMNO'', ''item_number''), (''PRODCD'', ''product_code''), (''SKU'', ''sku''), (''QTY'', ''quantity''),
      (''DESC'', ''description''), (''DESCR'', ''description''), (''E-MAIL'', ''email''),
      (''EMAIL'', ''email''), (''PHONE'', ''phone_number''), (''DEPT'', ''department''),
      (''STATUS'', ''status''), (''TYPE'', ''type''), (''CODE'', ''code''), (''FLAG'', ''flag''),
      (''ACTIVE'', ''is_active''), (''INACTIVE'', ''is_inactive'')]"

definition analyze_as400_patterns :: "string \<Rightarrow> string" where
  "analyze_as400_patterns col =
     (case map_of as400_mappings (str_upper col) of
        Some v \<Rightarrow> v
      | None \<Rightarrow> to_snake_case col)"

definition abbreviations :: "(string \<times> string) list" where
  \<comment> \<open>in the insertion order of the source's dict, which \<open>items()\<close> follows\<close>
  "abbreviations =
     [(''cust'', ''customer''), (''emp'', ''employee''), (''addr'', ''address''),
      (''dept'', ''department''), (''prod'', ''product''), (''qty'', ''quantity''),
      (''amt'', ''amount''), (''desc'', ''description''), (''num'', ''number''),
      (''id'', ''id''), (''no'', ''number''), (''dt'', ''date''),
      (''cd'', ''code''), (''nm'', ''name''), (''stat'', ''status''),
      (''typ'', ''type''), (''flg'', ''flag''), (''act'', ''active'')]"

fun search_abbr_from :: "string \<Rightarrow> bool \<Rightarrow> string \<Rightarrow> bool" where
  \<comment> \<open>\<open>search_abbr_from abbr sep s\<close>: \<open>abbr\<close> occurs in \<open>s\<close> with no \<open>[a-z]\<close> right after it,
      either at the head of \<open>s\<close> when \<open>sep\<close> holds (the head is the start of the string or
      follows a character outside \<open>[a-z]\<close>) or further on after such a character\<close>
  "search_abbr_from abbr sep [] = False"
| "search_abbr_from abbr sep (c # cs) =
     ((sep \<and> startswith (c # cs) abbr \<and>
         (case drop (length abbr) (c # cs) of [] \<Rightarrow> True | d # _ \<Rightarrow> \<not> is_lower d))
      \<or> search_abbr_from abbr (\<not> is_lower c) cs)"

definition search_abbr :: "string \<Rightarrow> string \<Rightarrow> bool" where
  \<comment> \<open>\<open>re.search(rf'^{abbr}[^a-z]|^{abbr}$|[^a-z]{abbr}[^a-z]|[^a-z]{abbr}$', s)\<close>\<close>
  "search_abbr abbr s = search_abbr_from abbr True s"

fun sub_word_from :: "string \<Rightarrow> string \<Rightarrow> bool \<Rightarrow> nat \<Rightarrow> string \<Rightarrow> string" where
  \<comment> \<open>\<open>re.sub(rf'\b{abbr}\b', full, s)\<close>, scanning from the left. \<open>bnd\<close> says that the head
      of the rest is at the start of the string or follows a character outside \<open>\w\<close>;
      \<open>skip\<close> counts the characters of the match just replaced that are still to be
      passed over.\<close>
  "sub_word_from abbr full bnd skip [] = []"
| "sub_word_from abbr full bnd (Suc k) (c # cs) = sub_word_from abbr full False k cs"
| "sub_word_from abbr full bnd 0 (c # cs) =
     (if bnd \<and> startswith (c # cs) abbr \<and>
         (case drop (length abbr) (c # cs) of [] \<Rightarrow> True | d # _ \<Rightarrow> \<not> is_word d)
      then full @ sub_word_from abbr full False (length abbr - 1) cs
      else c # sub_word_from abbr full (\<not> is_word c) 0 cs)"

definition sub_word :: "string \<Rightarrow> string \<Rightarrow> string \<Rightarrow> string" where
  "sub_word abbr full s = sub_word_from abbr full True 0 s"

definition heuristic_transformation :: "string \<Rightarrow> string" where
  "heuristic_transformation col =
     (let col_lower = str_lower col;
          result = foldl (\<lambda>result (abbr, full).
                            if search_abbr abbr result then sub_word abbr full result else result)
                         col_lower abbreviations
      in to_snake_case result)"

definition rstrip :: "string \<Rightarrow> string" where
  "rstrip s = rev (dropWhile isspace (rev s))"

definition sub_leading_word :: "string \<Rightarrow> string" where
  \<comment> \<open>\<open>re.sub(r'^(the|a|an|column|field|name|value|result|output)\s*', '', clean)\<close>:
      the first alternative that starts the string, with the whitespace after it\<close>
  "sub_leading_word s =
     (case find (startswith s)
             [''the'', ''a'', ''an'', ''column'', ''field'', ''name'', ''value'', ''result'', ''output''] of
        None \<Rightarrow> s
      | Some w \<Rightarrow> dropWhile isspace (drop (length w) s))"

definition sub_trailing_word :: "string \<Rightarrow> string" where
  \<comment> \<open>\<open>re.sub(r'\s*(column|field|name|value|result|output)$', '', clean)\<close>: the word that
      ends the string (or stands before its final newline), with the whitespace before it\<close>
  "sub_trailing_word s =
     (let body = (if endswith s ''\<newline>'' then butlast s else s);
          tail = (if endswith s ''\<newline>'' then ''\<newline>'' else [])
      in case find (endswith body)
                [''column'', ''field'', ''name'', ''value'', ''result'', ''output''] of
           None \<Rightarrow> s
         | Some w \<Rightarrow> rstrip (take (length body - length w) body) @ tail)"

definition clean_column_name :: "string \<Rightarrow> string" where
  "clean_column_name name =
     (if name = [] then []
      else
        let clean = filter (\<lambda>c. c \<notin> set [CHR 0x27, CHR 0x22, CHR 0x60]) (str_lower (strip name));
            clean = sub_leading_word clean;
            clean = sub_trailing_word clean;
            clean = to_snake_case clean;
            clean = strip_chars (\<lambda>c. c = CHR ''_'') (sub_runs (\<lambda>c. c = CHR ''_'') ''_'' clean)
        in if clean = [] then ''column'' else clean)"

definition rename_prompt :: "string \<Rightarrow> string" where
  "rename_prompt original_col =
     ''Convert this database column name to modern snake_case: '' @ [CHR 0x27] @ original_col
       @ [CHR 0x27] @ ''. ''
       @ ''Return only the clean column name. ''
       @ ''Examples: CUS_ID -> customer_id, EMPNO -> employee_number, ''
       @ ''ADDR1 -> address_line_1, CUSTNAME -> customer_name''"

definition ai_transform :: "ai_service \<Rightarrow> string \<Rightarrow> string option" where
  \<comment> \<open>the guarded \<open>try\<close> block of \<open>modernize_column_name\<close>: the name it returns, if it returns\<close>
  "ai_transform ai original_col =
     (case modernizer ai of
        None \<Rightarrow> None
      | Some generate \<Rightarrow>
          if \<not> has_transformers ai then None
          else (case generate (rename_prompt original_col) 25 of
                  Inl e \<Rightarrow> None
                | Inr generated_text \<Rightarrow>
                    let clean_name = clean_column_name generated_text
                    in if clean_name \<noteq> [] \<and> validate_column_name clean_name original_col
                       then Some clean_name else None))"

definition modernize_column_name_wrapped :: "ai_service \<Rightarrow> string \<Rightarrow> string" where
  \<comment> \<open>the body of \<open>modernize_column_name\<close>, under its \<open>lru_cache\<close> decorator\<close>
  "modernize_column_name_wrapped ai col =
     (if col = [] \<or> strip col = [] then ''unknown_column''
      else
        let original_col = strip col;
            as400_result = analyze_as400_patterns original_col
        in if as400_result \<noteq> to_snake_case original_col
              \<and> validate_column_name as400_result original_col
           then as400_result
           else (case ai_transform ai original_col of
                   Some clean_name \<Rightarrow> clean_name
                 | None \<Rightarrow>
                     let heuristic_result = heuristic_transformation original_col
                     in if validate_column_name heuristic_result original_col
                        then heuristic_result
                        else to_snake_case original_col))"

subsection \<open>The cache of \<open>modernize_column_name\<close>\<close>

text \<open>
  \<open>@lru_cache(maxsize=1024)\<close>: the entries are kept most recently used first. A hit
  moves its entry to the front; a miss runs the body, puts the result in front and,
  when the cache is full, drops the least recently used entry. \<open>hits\<close> and \<open>misses\<close>
  are the counters of \<open>cache_info()\<close>; the body runs exactly on a miss.
\<close>

record lru_cache =
  entries :: "(string \<times> string) list"
  hits :: nat
  misses :: nat

definition maxsize :: nat where
  "maxsize = 1024"

definition cache_clear :: lru_cache where
  "cache_clear = \<lparr>entries = [], hits = 0, misses = 0\<rparr>"

definition modernize_column_name :: "ai_service \<Rightarrow> string \<Rightarrow> lru_cache \<Rightarrow> string \<times> lru_cache" where
  "modernize_column_name ai col cache =
     (case map_of (entries cache) col of
        Some result \<Rightarrow>
          (result, cache\<lparr>entries := (col, result) # filter (\<lambda>kv. fst kv \<noteq> col) (entries cache),
                          hits := hits cache + 1\<rparr>)
      | None \<Rightarrow>
          let result = modernize_column_name_wrapped ai col
          in (result, cache\<lparr>entries := take maxsize ((col, result) # entries cache),
                             misses := misses cache + 1\<rparr>))"

fun modernize_all :: "ai_service \<Rightarrow> string list \<Rightarrow> lru_cache \<Rightarrow> lru_cache" where
  \<comment> \<open>the cache after a sequence of calls of \<open>modernize_column_name\<close>\<close>
  "modernize_all ai [] cache = cache"
| "modernize_all ai (col # cols) cache =
     modernize_all ai cols (snd (modernize_column_name ai col cache))"

subsection \<open>The value-shape patterns of \<open>_pattern_based_prediction\<close>\<close>

text \<open>
  Each function below is \<open>pattern.match(value)\<close> for one compiled pattern: a match that
  starts at the first character. \<open>$\<close> matches at the end of the string and before a
  final newline.
\<close>

definition at_end :: "string \<Rightarrow> bool" where
  \<comment> \<open>\<open>$\<close> on what is left of the string\<close>
  "at_end rest = (rest = [] \<or> rest = ''\<newline>'')"

definition digits_n :: "nat \<Rightarrow> string \<Rightarrow> string option" where
  \<comment> \<open>\<open>\d{n}\<close>: what is left after it\<close>
  "digits_n n s = (if n \<le> length s \<and> list_all is_digit (take n s) then Some (drop n s) else None)"

definition lit :: "char \<Rightarrow> string \<Rightarrow> string option" where
  \<comment> \<open>one literal character: what is left after it\<close>
  "lit c s = (case s of [] \<Rightarrow> None | d # ds \<Rightarrow> if d = c then Some ds else None)"

definition digits_plus :: "string \<Rightarrow> string option" where
  \<comment> \<open>\<open>\d+\<close>, greedy: what is left after it. Giving digits back never helps the patterns
      below, where \<open>\d+\<close> is followed by a character that is no digit or by \<open>$\<close>.\<close>
  "digits_plus s = (if s \<noteq> [] \<and> is_digit (hd s) then Some (dropWhile is_digit s) else None)"

fun email_tld :: "nat \<Rightarrow> char \<Rightarrow> string \<Rightarrow> bool" where
  \<comment> \<open>\<open>[A-Z|a-z]{2,}\b\<close> after \<open>k\<close> characters of the class, the last one being \<open>p\<close>\<close>
  "email_tld k p [] = (2 \<le> k \<and> is_word p)"
| "email_tld k p (c # cs) =
     ((2 \<le> k \<and> (is_word p \<noteq> is_word c))
      \<or> ((is_alpha c \<or> c = CHR ''|'') \<and> email_tld (Suc k) c cs))"

fun email_domain :: "bool \<Rightarrow> string \<Rightarrow> bool" where
  \<comment> \<open>\<open>[A-Za-z0-9.-]+\.[A-Z|a-z]{2,}\b\<close>; the flag says that a character of the first class
      has been read\<close>
  "email_domain seen [] = False"
| "email_domain seen (c # cs) =
     ((seen \<and> c = CHR ''.'' \<and> email_tld 0 c cs)
      \<or> ((is_alpha c \<or> is_digit c \<or> c = CHR ''.'' \<or> c = CHR ''-'') \<and> email_domain True cs))"

definition email_local :: "char \<Rightarrow> bool" where
  \<comment> \<open>\<open>[A-Za-z0-9._%+-]\<close>\<close>
  "email_local c = (is_alpha c \<or> is_digit c \<or> c \<in> set ''._%+-'')"

definition match_email :: "string \<Rightarrow> bool" where
  \<comment> \<open>\<open>\b[A-Za-z0-9._%+-]+@[A-Za-z0-9.-]+\.[A-Z|a-z]{2,}\b\<close>\<close>
  "match_email s =
     (case s of
        [] \<Rightarrow> False
      | c # cs \<Rightarrow> is_word c \<and> email_local c \<and>
          (case dropWhile email_local cs of
             [] \<Rightarrow> False
           | d # ds \<Rightarrow> d = CHR ''@'' \<and> email_domain False ds))"

definition match_date :: "string \<Rightarrow> bool" where
  \<comment> \<open>\<open>^\d{4}-\d{2}-\d{2}$|^\d{2}/\d{2}/\d{4}$|^\d{2}-\d{2}-\d{4}$\<close>\<close>
  "match_date s =
     ((case Option.bind (Option.bind (Option.bind (Option.bind (digits_n 4 s) (lit (CHR ''-'')))
               (digits_n 2)) (lit (CHR ''-''))) (digits_n 2) of
         Some rest \<Rightarrow> at_end rest | None \<Rightarrow> False)
      \<or> (case Option.bind (Option.bind (Option.bind (Option.bind (digits_n 2 s) (lit (CHR ''/'')))
               (digits_n 2)) (lit (CHR ''/''))) (digits_n 4) of
         Some rest \<Rightarrow> at_end rest | None \<Rightarrow> False)
      \<or> (case Option.bind (Option.bind (Option.bind (Option.bind (digits_n 2 s) (lit (CHR ''-'')))
               (digits_n 2)) (lit (CHR ''-''))) (digits_n 4) of
         Some rest \<Rightarrow> at_end rest | None \<Rightarrow> False))"

definition match_zip_code :: "string \<Rightarrow> bool" where
  \<comment> \<open>\<open>^\d{5}(-\d{4})?$\<close>\<close>
  "match_zip_code s =
     (case digits_n 5 s of
        None \<Rightarrow> False
      | Some rest \<Rightarrow>
          (case Option.bind (lit (CHR ''-'') rest) (digits_n 4) of
             Some rest' \<Rightarrow> at_end rest' | None \<Rightarrow> False)
          \<or> at_end rest)"

definition match_amount :: "string \<Rightarrow> bool" where
  \<comment> \<open>\<open>^\$?\d+(?:\.\d{2})?$\<close>, the pattern of both \<open>amount\<close> and \<open>price\<close>\<close>
  "match_amount s =
     (case digits_plus (case lit (CHR ''$'') s of Some s' \<Rightarrow> s' | None \<Rightarrow> s) of
        None \<Rightarrow> False
      | Some rest \<Rightarrow>
          (case Option.bind (lit (CHR ''.'') rest) (digits_n 2) of
             Some rest' \<Rightarrow> at_end rest' | None \<Rightarrow> False)
          \<or> at_end rest)"

definition match_quantity :: "string \<Rightarrow> bool" where
  \<comment> \<open>\<open>^\d+$\<close>\<close>
  "match_quantity s = (case digits_plus s of None \<Rightarrow> False | Some rest \<Rightarrow> at_end rest)"

definition match_id :: "string \<Rightarrow> bool" where
  \<comment> \<open>\<open>^[A-Z0-9_-]+$\<close>\<close>
  "match_id s =
     (let cls = (\<lambda>c. is_upper c \<or> is_digit c \<or> c = CHR ''_'' \<or> c = CHR ''-'')
      in s \<noteq> [] \<and> cls (hd s) \<and> at_end (dropWhile cls s))"

definition match_percentage :: "string \<Rightarrow> bool" where
  \<comment> \<open>\<open>^\d+(?:\.\d+)?%$\<close>\<close>
  "match_percentage s =
     (case digits_plus s of
        None \<Rightarrow> False
      | Some rest \<Rightarrow>
          (case Option.bind (Option.bind (lit (CHR ''.'') rest) digits_plus) (lit (CHR ''%'')) of
             Some rest' \<Rightarrow> at_end rest' | None \<Rightarrow> False)
          \<or> (case lit (CHR ''%'') rest of Some rest' \<Rightarrow> at_end rest' | None \<Rightarrow> False))"

definition match_status :: "string \<Rightarrow> bool" where
  \<comment> \<open>\<open>^(active|inactive|pending|approved|rejected)$\<close> with \<open>re.IGNORECASE\<close>\<close>
  "match_status s =
     list_ex (\<lambda>w. startswith (str_lower s) w \<and> at_end (drop (length w) s))
       [''active'', ''inactive'', ''pending'', ''approved'', ''rejected'']"

type_synonym pattern = "string \<Rightarrow> bool"

definition bad_character_range :: error where
  \<comment> \<open>the \<open>re.error\<close> of the second pattern; its text holds a backslash (code point 0x5C)\<close>
  "bad_character_range = ReError (''bad character range '' @ [CHR 0x5C] @ ''s-( at position 7'')"

definition patterns :: "(string \<times> (error + pattern)) list" where
  \<comment> \<open>the list \<open>patterns\<close> with each \<open>re.compile(...)\<close> that the function evaluates on entry.
      The character class \<open>[\d\s-()]\<close> of the second pattern has the class escape \<open>\s\<close> as
      the lower end of a range, which \<open>re.compile\<close> refuses with \<open>re.error\<close>.\<close>
  "patterns =
     [(''email'', Inr match_email),
      (''phone_number'', Inl bad_character_range),
      (''date'', Inr match_date),
      (''zip_code'', Inr match_zip_code),
      (''amount'', Inr match_amount),
      (''price'', Inr match_amount),
      (''quantity'', Inr match_quantity),
      (''id'', Inr match_id),
      (''percentage'', Inr match_percentage),
      (''status'', Inr match_status)]"

fun compile_patterns :: "(string \<times> (error + pattern)) list \<Rightarrow> error + (string \<times> pattern) list" where
  \<comment> \<open>building the list evaluates the \<open>re.compile\<close> calls in order; the first error is raised\<close>
  "compile_patterns [] = Inr []"
| "compile_patterns ((name, Inl e) # ps) = Inl e"
| "compile_patterns ((name, Inr p) # ps) =
     (case compile_patterns ps of Inl e \<Rightarrow> Inl e | Inr cs \<Rightarrow> Inr ((name, p) # cs))"

fun counter_incr :: "(string \<times> nat) list \<Rightarrow> string \<Rightarrow> (string \<times> nat) list" where
  \<comment> \<open>\<open>match_counts[name] += 1\<close> on a \<open>Counter\<close>, whose keys stay in the order of insertion\<close>
  "counter_incr [] name = [(name, 1)]"
| "counter_incr ((k, n) # kvs) name =
     (if k = name then (k, n + 1) # kvs else (k, n) # counter_incr kvs name)"

fun first_match :: "(string \<times> pattern) list \<Rightarrow> string \<Rightarrow> string option" where
  \<comment> \<open>the inner loop: the name of the first pattern that matches the value\<close>
  "first_match [] v = None"
| "first_match ((name, pattern) # ps) v = (if pattern v then Some name else first_match ps v)"

fun count_matches :: "(string \<times> pattern) list \<Rightarrow> (string \<times> nat) list \<Rightarrow> string list \<Rightarrow> (string \<times> nat) list" where
  \<comment> \<open>the outer loop over the sample\<close>
  "count_matches ps match_counts [] = match_counts"
| "count_matches ps match_counts (v # vs) =
     count_matches ps
       (case first_match ps v of None \<Rightarrow> match_counts | Some name \<Rightarrow> counter_incr match_counts name)
       vs"

fun most_common1 :: "(string \<times> nat) list \<Rightarrow> (string \<times> nat) option" where
  \<comment> \<open>\<open>most_common(1)\<close>, that is \<open>max(items, key=count)\<close>: the first entry, in the order of
      insertion, that has the largest count\<close>
  "most_common1 [] = None"
| "most_common1 (kv # kvs) =
     (case most_common1 kvs of
        None \<Rightarrow> Some kv
      | Some best \<Rightarrow> if snd best > snd kv then Some best else Some kv)"

definition numeric_like :: "string \<Rightarrow> bool" where
  \<comment> \<open>\<open>v.replace('.', '').replace('-', '').isdigit()\<close>\<close>
  "numeric_like v = isdigit (replace_all (replace_all v ''.'' []) ''-'' [])"

definition predict_from_counts :: "(string \<times> pattern) list \<Rightarrow> string list \<Rightarrow> nat \<Rightarrow> string" where
  \<comment> \<open>\<open>_pattern_based_prediction\<close> from the loop on, given the compiled \<open>patterns\<close>.
      \<open>count / len(sample) > 0.3\<close> compares two floats; for a sample of at most 100 values
      the rounded quotient exceeds the rounded 0.3 exactly when \<open>10 * count > 3 * len(sample)\<close>.\<close>
  "predict_from_counts ps sample col_index =
     (let match_counts = count_matches ps [] sample;
          dominant = (case most_common1 match_counts of
                        None \<Rightarrow> None
                      | Some (most_common, count) \<Rightarrow>
                          if 10 * count > 3 * length sample then Some most_common else None)
      in case dominant of
           Some most_common \<Rightarrow> most_common
         | None \<Rightarrow>
             if list_all numeric_like (take 10 sample) then ''numeric_'' @ str_nat col_index
             else ''text_'' @ str_nat col_index)"

definition pattern_based_prediction :: "string list \<Rightarrow> nat \<Rightarrow> error + string" where
  "pattern_based_prediction sample col_index =
     (case compile_patterns patterns of
        Inl e \<Rightarrow> Inl e
      | Inr ps \<Rightarrow> Inr (predict_from_counts ps sample col_index))"

definition inference_prompt :: "string list \<Rightarrow> string" where
  \<comment> \<open>the prompt of the inference task; \<open>{sample_preview}\<close> is the \<open>repr\<close> of a list of
      strings, written here for values without quotes or escapes\<close>
  "inference_prompt sample_preview =
     ''Based on these sample values: ['' @
       concat (map (\<lambda>(i, v). (if i = 0 then [] else '', '') @ [CHR 0x27] @ v @ [CHR 0x27])
                 (enumerate 0 sample_preview)) @ ''], ''
       @ ''generate a concise snake_case column name. ''
       @ ''Return only the column name, no explanations. ''
       @ ''Examples: ['' @ [CHR 0x27] @ ''john@email.com'' @ [CHR 0x27] @ ''] -> ''
       @ [CHR 0x27] @ ''email'' @ [CHR 0x27] @ '', ''
       @ ''['' @ [CHR 0x27] @ ''555-1234'' @ [CHR 0x27] @ ''] -> ''
       @ [CHR 0x27] @ ''phone_number'' @ [CHR 0x27] @ '', ''
       @ ''['' @ [CHR 0x27] @ ''100.00'' @ [CHR 0x27] @ ''] -> ''
       @ [CHR 0x27] @ ''amount'' @ [CHR 0x27]"

definition ai_predict :: "ai_service \<Rightarrow> string list \<Rightarrow> string option" where
  \<comment> \<open>the guarded \<open>try\<close> block of \<open>predict_column_name_from_data\<close>\<close>
  "ai_predict ai sample =
     (case modernizer ai of
        None \<Rightarrow> None
      | Some generate \<Rightarrow>
          if \<not> has_transformers ai then None
          else (case generate (inference_prompt (take 3 sample)) 20 of
                  Inl e \<Rightarrow> None
                | Inr generated_text \<Rightarrow>
                    let generated_name = str_lower (strip generated_text);
                        clean_name = clean_column_name generated_name
                    in if clean_name \<noteq> [] \<and> validate_column_name clean_name []
                       then Some clean_name else None))"

definition column_sample :: "string option list \<Rightarrow> string list" where
  \<comment> \<open>\<open>[str(d).strip() for d in column_data[:100] if d is not None and str(d).strip()]\<close>\<close>
  "column_sample column_data =
     concat (map (\<lambda>d. case d of
                         None \<Rightarrow> []
                       | Some s \<Rightarrow> if strip s \<noteq> [] then [strip s] else [])
                 (take 100 column_data))"

definition predict_column_name_from_data ::
    "ai_service \<Rightarrow> string option list \<Rightarrow> nat \<Rightarrow> error + string" where
  \<comment> \<open>\<open>column_data\<close> holds \<open>None\<close> or a value, given by its \<open>str\<close>\<close>
  "predict_column_name_from_data ai column_data col_index =
     (if column_data = [] then Inr (''column_'' @ str_nat col_index)
      else
        let sample = column_sample column_data
        in if sample = [] then Inr (''data_column_'' @ str_nat col_index)
           else (case pattern_based_prediction sample col_index of
                   Inl e \<Rightarrow> Inl e
                 | Inr pattern_result \<Rightarrow>
                     if pattern_result \<noteq> []
                        \<and> \<not> (startswith pattern_result ''text_data_''
                             \<or> startswith pattern_result ''numeric_data_'')
                     then Inr pattern_result
                     else (case ai_predict ai sample of
                             Some clean_name \<Rightarrow> Inr clean_name
                           | None \<Rightarrow> Inr pattern_result)))"

section \<open>services/file\_service.py\<close>

type_synonym bytes = "char list"

text \<open>
  A \<open>DataFrame\<close> is its column labels, each given by its \<open>str\<close>, and its rows of cells;
  a cell is \<open>None\<close> when it is missing (NaN) and otherwise a value given by its \<open>str\<close>.
\<close>

record dataframe =
  columns :: "string list"
  rows :: "string option list list"

definition df_empty :: "dataframe \<Rightarrow> bool" where
  \<comment> \<open>\<open>df.empty\<close>: an axis of length 0\<close>
  "df_empty df = (columns df = [] \<or> rows df = [])"

definition usable :: "dataframe \<Rightarrow> bool" where
  \<comment> \<open>\<open>df.shape[1] > 1 and len(df) > 0\<close>\<close>
  "usable df = (length (columns df) > 1 \<and> length (rows df) > 0)"

text \<open>
  The libraries the service calls (\<open>chardet\<close>, the codecs of \<open>bytes.decode\<close> with
  \<open>errors="ignore"\<close>, \<open>csv.Sniffer\<close> and the readers of \<open>pandas\<close>) are parameters of the
  model; each returns its result or the exception it raises.
\<close>

record library =
  chardet_encoding :: "bytes \<Rightarrow> error + string option"
  bytes_decode :: "bytes \<Rightarrow> string \<Rightarrow> error + string"
  csv_sniff :: "string \<Rightarrow> string \<Rightarrow> error + string"
  read_csv :: "string \<Rightarrow> string option \<Rightarrow> error + dataframe"
  read_fwf :: "string \<Rightarrow> error + dataframe"
  read_excel :: "bytes \<Rightarrow> error + dataframe"

definition safe_decode :: "library \<Rightarrow> bytes \<Rightarrow> error + string" where
  "safe_decode lib raw_bytes =
     (case chardet_encoding lib raw_bytes of
        Inl e \<Rightarrow> bytes_decode lib raw_bytes ''utf-8''
      | Inr encoding \<Rightarrow>
          let enc = (case encoding of
                       None \<Rightarrow> ''utf-8''
                     | Some name \<Rightarrow> if name = [] then ''utf-8'' else name)
          in (case bytes_decode lib raw_bytes enc of
                Inl e \<Rightarrow> bytes_decode lib raw_bytes ''utf-8''
              | Inr text \<Rightarrow> Inr text))"

definition separator_char :: "char \<Rightarrow> bool" where
  \<comment> \<open>\<open>[-=\s]\<close>\<close>
  "separator_char c = (c = CHR ''-'' \<or> c = CHR ''='' \<or> isspace c)"

definition match_separator :: "string \<Rightarrow> bool" where
  \<comment> \<open>\<open>re.match(r'^[-=\s]+$', s)\<close>\<close>
  "match_separator s = (s \<noteq> [] \<and> list_all separator_char s)"

definition match_separator_or_empty :: "string \<Rightarrow> bool" where
  \<comment> \<open>\<open>re.match(r'^[-=\s]*$', s)\<close>\<close>
  "match_separator_or_empty s = list_all separator_char s"

definition search_upper_header :: "string \<Rightarrow> bool" where
  \<comment> \<open>\<open>re.search(r'^[A-Z][A-Z0-9\s]*$', s)\<close>\<close>
  "search_upper_header s =
     (case s of
        [] \<Rightarrow> False
      | c # cs \<Rightarrow> is_upper c \<and> list_all (\<lambda>d. is_upper d \<or> is_digit d \<or> isspace d) cs)"

definition header_candidate :: "string \<Rightarrow> bool" where
  \<comment> \<open>the two tests of the first loop of \<open>detect_fixed_width_structure\<close> on one line\<close>
  "header_candidate line =
     (\<not> (strip line = [] \<or> match_separator (strip line))
      \<and> list_ex is_alpha line
      \<and> \<not> list_ex (startswith (strip line)) [''Page'', ''Date'', ''Time''])"

type_synonym span = "nat \<times> nat \<times> string"

fun header_words :: "span list \<Rightarrow> string \<Rightarrow> nat \<Rightarrow> nat \<Rightarrow> string \<Rightarrow> span list \<times> string \<times> nat" where
  \<comment> \<open>the loop over \<open>enumerate(header_line)\<close>, from position \<open>pos\<close> on; the state is
      \<open>(words, current_word, start_pos)\<close>\<close>
  "header_words words current_word start_pos pos [] = (words, current_word, start_pos)"
| "header_words words current_word start_pos pos (char # rest) =
     (if isspace char then
        (if current_word \<noteq> []
         then header_words (words @ [(start_pos, pos, strip current_word)]) [] (pos + 1) (pos + 1) rest
         else header_words words current_word (pos + 1) (pos + 1) rest)
      else header_words words (current_word @ [char]) start_pos (pos + 1) rest)"

definition header_spans :: "string \<Rightarrow> span list" where
  \<comment> \<open>the loop over the header line, then \<open># Add the last word\<close>\<close>
  "header_spans header_line =
     (case header_words [] [] 0 0 header_line of
        (words, current_word, start_pos) \<Rightarrow>
          if current_word \<noteq> []
          then words @ [(start_pos, length header_line, strip current_word)]
          else words)"

definition detect_fixed_width_structure :: "string list \<Rightarrow> span list option" where
  "detect_fixed_width_structure lines =
     (if length lines < 3 then None
      else (case find header_candidate (take 5 lines) of
              None \<Rightarrow> None
            | Some header_line \<Rightarrow>
                let words = header_spans header_line
                in if length words > 1 then Some words else None))"

fun find_data_start :: "nat \<Rightarrow> string list \<Rightarrow> nat" where
  \<comment> \<open>the loop that sets \<open>data_start\<close>, from line \<open>i\<close> on; 0 when no line breaks out\<close>
  "find_data_start i [] = 0"
| "find_data_start i (line # rest) =
     (if match_separator (strip line) then i + 1
      else if i > 0 \<and> \<not> search_upper_header (strip line) then i
      else find_data_start (i + 1) rest)"

definition extract_cell :: "string \<Rightarrow> span \<Rightarrow> string" where
  "extract_cell line sp =
     (case sp of (start, end_pos, name) \<Rightarrow>
        if start < length line
        then strip (take (min end_pos (length line) - start) (drop start line))
        else [])"

definition extract_rows :: "span list \<Rightarrow> string list \<Rightarrow> string list list" where
  \<comment> \<open>the loop over the data lines: separator lines are passed over, a row with no
      non-empty cell is dropped\<close>
  "extract_rows column_structure data_lines =
     filter (\<lambda>row. list_ex (\<lambda>cell. cell \<noteq> []) row)
       (map (\<lambda>line. map (extract_cell line) column_structure)
          (filter (\<lambda>line. \<not> (strip line = [] \<or> match_separator_or_empty (strip line))) data_lines))"

definition parse_fixed_width_data :: "library \<Rightarrow> string \<Rightarrow> error + dataframe" where
  "parse_fixed_width_data lib content_str =
     (let lines = filter (\<lambda>line. strip line \<noteq> []) (split_on (CHR 0x0A) (strip content_str));
          fallback = (case read_fwf lib content_str of
                        Inr df \<Rightarrow> if usable df then Inr df
                                  else Inl (ValueError ''Could not parse as fixed-width format'')
                      | Inl e \<Rightarrow> Inl (ValueError ''Could not parse as fixed-width format''))
      in if length lines < 2 then Inl (ValueError ''Insufficient data for fixed-width parsing'')
         else (case detect_fixed_width_structure lines of
                 None \<Rightarrow> fallback
               | Some column_structure \<Rightarrow>
                   let data_start = find_data_start 0 lines;
                       data_rows = extract_rows column_structure (drop (max data_start 1) lines)
                   in if data_rows \<noteq> []
                      then Inr \<lparr>columns = map (\<lambda>(start, end_pos, name). name) column_structure,
                                rows = map (map Some) data_rows\<rparr>
                      else fallback))"

definition line_boundaries :: string where
  \<comment> \<open>the characters at which \<open>str.splitlines\<close> breaks a line\<close>
  "line_boundaries = [CHR 0x0A, CHR 0x0D, CHR 0x0B, CHR 0x0C, CHR 0x1C, CHR 0x1D, CHR 0x1E, CHR 0x85]"

fun splitlines_from :: "string \<Rightarrow> bool \<Rightarrow> string \<Rightarrow> string list" where
  \<comment> \<open>\<open>cur\<close> is the line read so far; \<open>after_cr\<close> says that the last character was a
      carriage return, which takes a line feed right after it into the same break\<close>
  "splitlines_from cur after_cr [] = (if cur = [] then [] else [cur])"
| "splitlines_from cur after_cr (c # cs) =
     (if after_cr \<and> c = CHR 0x0A then splitlines_from cur False cs
      else if c \<in> set line_boundaries then cur # splitlines_from [] (c = CHR 0x0D) cs
      else splitlines_from (cur @ [c]) False cs)"

definition splitlines :: "string \<Rightarrow> string list" where
  "splitlines s = splitlines_from [] False s"

definition search_header_pattern :: "string \<Rightarrow> bool" where
  \<comment> \<open>\<open>re.search(r'^[A-Z][A-Z0-9\s]{10,}', line)\<close>\<close>
  "search_header_pattern line =
     (case line of
        [] \<Rightarrow> False
      | c # cs \<Rightarrow> is_upper c
          \<and> 10 \<le> length (takeWhile (\<lambda>d. is_upper d \<or> is_digit d \<or> isspace d) cs))"

definition looks_fixed_width :: "string list \<Rightarrow> bool" where
  \<comment> \<open>\<open>has_uniform_width or has_header_pattern or has_separator_line\<close>\<close>
  "looks_fixed_width lines =
     (length (remdups (map length (take 10 lines))) \<le> 2
      \<or> list_ex search_header_pattern (take 3 lines)
      \<or> list_ex (\<lambda>line. match_separator (strip line)) (take 5 lines))"

definition delimiters_to_try :: "string list" where
  "delimiters_to_try = ['','', [CHR 0x09], ''|'', '';'', '' '']"

fun try_delimiters :: "library \<Rightarrow> string \<Rightarrow> string list \<Rightarrow> dataframe option" where
  \<comment> \<open>the loop over \<open>delimiters_to_try\<close>: the table it returns, if it returns\<close>
  "try_delimiters lib content_str [] = None"
| "try_delimiters lib content_str (delim # rest) =
     (case read_csv lib content_str (Some delim) of
        Inr df \<Rightarrow> if usable df then Some df else try_delimiters lib content_str rest
      | Inl e \<Rightarrow> try_delimiters lib content_str rest)"

definition manual_parse :: "string list \<Rightarrow> error + dataframe" where
  \<comment> \<open>the last resort of \<open>detect_delimiter_and_read_text\<close>\<close>
  "manual_parse lines =
     (if lines = [] then Inl (ValueError ''No data found in file'')
      else
        let header_line = hd lines;
            data_lines = tl lines;
            header_tokens = split_ws header_line;
            is_header = list_ex (\<lambda>token. \<not> numeric_like token) header_tokens
        in if is_header \<and> data_lines \<noteq> []
           then Inr \<lparr>columns = header_tokens,
                     rows = map (\<lambda>line.
                               let tokens = split_ws line;
                                   tokens = tokens @ replicate (length header_tokens - length tokens) []
                               in map Some (take (length header_tokens) tokens))
                             data_lines\<rparr>
           else Inl (ValueError ''Unable to parse text file into tabular structure''))"

definition fixed_width_attempt :: "library \<Rightarrow> string \<Rightarrow> dataframe option" where
  \<comment> \<open>the first block of \<open>detect_delimiter_and_read_text\<close>: the table it returns, if it returns\<close>
  "fixed_width_attempt lib content_str =
     (let lines = filter (\<lambda>line. strip line \<noteq> []) (splitlines content_str)
      in if length lines \<ge> 3 \<and> looks_fixed_width lines
         then (case parse_fixed_width_data lib content_str of
                 Inr df \<Rightarrow> Some df
               | Inl e \<Rightarrow> None)
         else None)"

definition sniffed_attempt :: "library \<Rightarrow> string \<Rightarrow> dataframe option" where
  \<comment> \<open>sniffing and the parse with the sniffed delimiter: the table it returns, if it returns\<close>
  "sniffed_attempt lib content_str =
     (case csv_sniff lib (take 8192 content_str) ('',;'' @ [CHR 0x09] @ ''|'') of
        Inl e \<Rightarrow> None
      | Inr delimiter \<Rightarrow>
          if delimiter = [] then None
          else (case read_csv lib content_str (Some delimiter) of
                  Inr df \<Rightarrow> if usable df then Some df else None
                | Inl e \<Rightarrow> None))"

definition detect_delimiter_and_read_text :: "library \<Rightarrow> string \<Rightarrow> error + dataframe" where
  "detect_delimiter_and_read_text lib content_str =
     (case fixed_width_attempt lib content_str of
        Some df \<Rightarrow> Inr df
      | None \<Rightarrow>
          (case sniffed_attempt lib content_str of
             Some df \<Rightarrow> Inr df
           | None \<Rightarrow>
               (case try_delimiters lib content_str delimiters_to_try of
                  Some df \<Rightarrow> Inr df
                | None \<Rightarrow>
                    manual_parse (filter (\<lambda>line. strip line \<noteq> []) (splitlines content_str)))))"

definition is_placeholder :: "string \<Rightarrow> bool" where
  \<comment> \<open>\<open>not original_col or original_col.lower().startswith(('unnamed', 'col_', 'empty'))\<close>\<close>
  "is_placeholder original_col =
     (original_col = []
      \<or> list_ex (startswith (str_lower original_col)) [''unnamed'', ''col_'', ''empty''])"

definition column_data :: "dataframe \<Rightarrow> nat \<Rightarrow> string option list" where
  \<comment> \<open>\<open>df.iloc[:, i].dropna().astype(str).tolist()\<close>\<close>
  "column_data df i =
     concat (map (\<lambda>row. case (if i < length row then row ! i else None) of
                           None \<Rightarrow> []
                         | Some v \<Rightarrow> [Some v])
                 (rows df))"

definition final_validation :: "nat \<Rightarrow> string \<Rightarrow> string" where
  \<comment> \<open>the block \<open># Final validation\<close> of the loop\<close>
  "final_validation i new_name =
     (if new_name = [] \<or> length new_name < 2 then ''column_'' @ str_nat i else new_name)"

fun modernize_columns_from ::
    "ai_service \<Rightarrow> dataframe \<Rightarrow> nat \<Rightarrow> string list \<Rightarrow> lru_cache \<Rightarrow> (error + string list) \<times> lru_cache" where
  \<comment> \<open>the loop of \<open>_modernize_column_names\<close> over \<open>enumerate(df.columns)\<close>, from index \<open>i\<close> on;
      the cache of \<open>modernize_column_name\<close> is passed along, and kept when a call raises\<close>
  "modernize_columns_from ai df i [] cache = (Inr [], cache)"
| "modernize_columns_from ai df i (col_name # rest) cache =
     (let original_col = strip col_name;
          (predicted, cache') =
            (if is_placeholder original_col
             then (predict_column_name_from_data ai (column_data df i) i, cache)
             else (case modernize_column_name ai original_col cache of
                     (new_name, cache') \<Rightarrow> (Inr new_name, cache')))
      in case predicted of
           Inl e \<Rightarrow> (Inl e, cache')
         | Inr new_name \<Rightarrow>
             let new_name = final_validation i new_name
             in (case modernize_columns_from ai df (i + 1) rest cache' of
                   (Inl e, cache'') \<Rightarrow> (Inl e, cache'')
                 | (Inr modernized_columns, cache'') \<Rightarrow>
                     (Inr (new_name # modernized_columns), cache'')))"

definition modernize_column_names ::
    "ai_service \<Rightarrow> dataframe \<Rightarrow> lru_cache \<Rightarrow> (error + dataframe) \<times> lru_cache" where
  "modernize_column_names ai df cache =
     (case modernize_columns_from ai df 0 (columns df) cache of
        (Inl e, cache') \<Rightarrow> (Inl e, cache')
      | (Inr modernized_columns, cache') \<Rightarrow> (Inr (df\<lparr>columns := modernized_columns\<rparr>), cache'))"

record upload_file =
  filename :: "string option"
  content :: bytes

record file_info =
  info_filename :: "string option"
  size_bytes :: nat
  detected_format :: string
  original_columns :: "string list"
  modernized_columns :: "string list"
  export_format :: string
  rows_processed :: nat
  columns_processed :: nat
  ai_processing_enabled :: bool

definition error_message :: "error \<Rightarrow> string" where
  \<comment> \<open>\<open>str(e)\<close>\<close>
  "error_message e =
     (case e of ReError m \<Rightarrow> m | ValueError m \<Rightarrow> m | HTTPException status detail \<Rightarrow> detail
              | LibraryError m \<Rightarrow> m)"

definition file_extension :: "string option \<Rightarrow> string" where
  "file_extension name =
     (let filename = str_lower (case name of None \<Rightarrow> [] | Some f \<Rightarrow> f)
      in if CHR ''.'' \<in> set filename then last (split_on (CHR ''.'') filename) else [])"

definition parse_by_extension :: "library \<Rightarrow> string \<Rightarrow> bytes \<Rightarrow> string \<Rightarrow> error + dataframe" where
  \<comment> \<open>the three branches on \<open>ext\<close>; an \<open>HTTPException\<close> is raised as such, any other
      exception reaches the outer handler of \<open>process_file\<close>\<close>
  "parse_by_extension lib ext raw text =
     (if ext = ''xls'' \<or> ext = ''xlsx'' then
        (case read_excel lib raw of
           Inr df \<Rightarrow> Inr df
         | Inl e \<Rightarrow> Inl (HTTPException 400 (''Could not read Excel file: '' @ error_message e)))
      else if ext = ''csv'' then
        (case read_csv lib text None of
           Inr df \<Rightarrow> Inr df
         | Inl e \<Rightarrow> detect_delimiter_and_read_text lib text)
      else
        (case detect_delimiter_and_read_text lib text of
           Inr df \<Rightarrow> Inr df
         | Inl e \<Rightarrow> Inl (HTTPException 400 (''Could not parse file: '' @ error_message e))))"

definition dropna_all :: "dataframe \<Rightarrow> dataframe" where
  \<comment> \<open>\<open>df.dropna(how='all')\<close>: the rows with at least one cell that is not missing\<close>
  "dropna_all df = df\<lparr>rows := filter (\<lambda>row. list_ex (\<lambda>cell. cell \<noteq> None) row) (rows df)\<rparr>"

definition outer_handler :: "error \<Rightarrow> error" where
  \<comment> \<open>\<open>except HTTPException: raise\<close>, then \<open>except Exception\<close>\<close>
  "outer_handler e =
     (case e of
        HTTPException status detail \<Rightarrow> e
      | _ \<Rightarrow> HTTPException 500 (''File processing error: '' @ error_message e))"

definition process_parsed ::
    "ai_service \<Rightarrow> upload_file \<Rightarrow> string \<Rightarrow> string \<Rightarrow> dataframe \<Rightarrow> lru_cache
       \<Rightarrow> (error + dataframe \<times> file_info) \<times> lru_cache" where
  \<comment> \<open>\<open>process_file\<close> from \<open># Data validation and cleanup\<close> on, inside the \<open>try\<close>. The JSON
      document of \<open>export_format == "json"\<close> is rendered from the table and \<open>file_info\<close> and
      is not part of the model.\<close>
  "process_parsed ai file ext export df cache =
     (if df_empty df then (Inl (HTTPException 400 ''No data found in file''), cache)
      else
        let original = columns df;
            df = df\<lparr>columns := map (\<lambda>(i, c). if strip c \<noteq> [] then c else ''col_'' @ str_nat i)
                                   (enumerate 0 (columns df))\<rparr>;
            df = dropna_all df
        in if df_empty df then (Inl (HTTPException 400 ''No valid data rows found''), cache)
           else (case modernize_column_names ai df cache of
                   (Inl e, cache') \<Rightarrow> (Inl e, cache')
                 | (Inr df, cache') \<Rightarrow>
                     (Inr (df, \<lparr>info_filename = filename file,
                                size_bytes = length (content file),
                                detected_format = (if ext \<noteq> [] then ext else ''text''),
                                original_columns = original,
                                modernized_columns = columns df,
                                export_format = export,
                                rows_processed = length (rows df),
                                columns_processed = length (columns df),
                                ai_processing_enabled = has_transformers ai\<rparr>),
                      cache')))"

definition process_file ::
    "library \<Rightarrow> ai_service \<Rightarrow> upload_file \<Rightarrow> string \<Rightarrow> lru_cache
       \<Rightarrow> (error + dataframe \<times> file_info) \<times> lru_cache" where
  "process_file lib ai file export cache =
     (let raw = content file;
          ext = file_extension (filename file);
          result =
            (case safe_decode lib raw of
               Inl e \<Rightarrow> (Inl e, cache)
             | Inr text \<Rightarrow>
                 (case parse_by_extension lib ext raw text of
                    Inl e \<Rightarrow> (Inl e, cache)
                  | Inr df \<Rightarrow> process_parsed ai file ext export df cache))
      in case result of
           (Inl e, cache') \<Rightarrow> (Inl (outer_handler e), cache')
         | (Inr r, cache') \<Rightarrow> (Inr r, cache'))"

section \<open>Notions used in the statements\<close>

definition no_ai :: ai_service where
  \<comment> \<open>the service when \<open>_load_ai_model\<close> loaded no model\<close>
  "no_ai = \<lparr>modernizer = None, has_transformers = False\<rparr>"

definition is_snake :: "string \<Rightarrow> bool" where
  \<comment> \<open>the name is in the language of \<open>^[a-z][a-z0-9_]*$\<close>\<close>
  "is_snake n = (case n of [] \<Rightarrow> False | c # cs \<Rightarrow> is_lower c \<and> list_all snake_char cs)"

definition cache_ok :: "ai_service \<Rightarrow> lru_cache \<Rightarrow> bool" where
  \<comment> \<open>every entry of the cache is what the body returns for its key\<close>
  "cache_ok ai cache =
     list_all (\<lambda>kv. snd kv = modernize_column_name_wrapped ai (fst kv)) (entries cache)"

definition stub_library :: library where
  \<comment> \<open>a library of which every call raises; the statements override the calls they need\<close>
  "stub_library =
     \<lparr>chardet_encoding = (\<lambda>raw. Inl (LibraryError ''chardet'')),
      bytes_decode = (\<lambda>raw enc. Inl (LibraryError ''codec'')),
      csv_sniff = (\<lambda>sample delimiters. Inl (LibraryError ''Could not determine delimiter'')),
      read_csv = (\<lambda>text sep. Inl (LibraryError ''read_csv'')),
      read_fwf = (\<lambda>text. Inl (LibraryError ''read_fwf'')),
      read_excel = (\<lambda>raw. Inl (LibraryError ''read_excel''))\<rparr>"

definition simple_read_csv :: "string \<Rightarrow> string option \<Rightarrow> error + dataframe" where
  \<comment> \<open>a plain reader to stand for \<open>read_csv\<close>: every line is split at the separator, the
      first line is the header\<close>
  "simple_read_csv text sep =
     (case sep of
        None \<Rightarrow> Inl (LibraryError ''read_csv'')
      | Some d \<Rightarrow>
          (case map (split_on (hd d)) (split_on (CHR 0x0A) text) of
             [] \<Rightarrow> Inl (LibraryError ''read_csv'')
           | header # records \<Rightarrow> Inr \<lparr>columns = header, rows = map (map Some) records\<rparr>))"

definition wide_label :: "nat \<Rightarrow> string" where
  \<comment> \<open>pairwise different column labels: \<open>X\<close>, \<open>XX\<close>, \<open>XXX\<close>, and so on\<close>
  "wide_label n = replicate (Suc n) (CHR ''X'')"

definition cache_keys :: "lru_cache \<Rightarrow> string list" where
  \<comment> \<open>the cached original names, most recently used first\<close>
  "cache_keys cache = map fst (entries cache)"






section \<open>The cache is transparent\<close>

lemma cache_ok_clear: "cache_ok ai cache_clear"
  by (simp add: cache_ok_def cache_clear_def)

lemma cache_ok_step:
  "cache_ok ai cache \<Longrightarrow> cache_ok ai (snd (modernize_column_name ai col cache))"
  unfolding cache_ok_def modernize_column_name_def
  by (auto simp: list_all_iff Let_def split: option.splits dest!: map_of_SomeD in_set_takeD)

lemma cache_ok_all: "cache_ok ai cache \<Longrightarrow> cache_ok ai (modernize_all ai cols cache)"
  by (induction cols arbitrary: cache) (simp_all add: cache_ok_step)

lemma cached_result:
  "cache_ok ai cache \<Longrightarrow>
   fst (modernize_column_name ai col cache) = modernize_column_name_wrapped ai col"
  unfolding cache_ok_def modernize_column_name_def
  by (auto simp: list_all_iff Let_def split: option.splits dest!: map_of_SomeD)

section \<open>The dictionary stage decides \<open>CUSTNO\<close>\<close>

lemma custno_strip: "strip ''CUSTNO'' = ''CUSTNO''"
  by code_simp

lemma custno_dict: "analyze_as400_patterns ''CUSTNO'' = ''customer_number''"
  by code_simp

lemma custno_snake: "to_snake_case ''CUSTNO'' = ''custno''"
  by code_simp

lemma custno_valid: "validate_column_name ''customer_number'' ''CUSTNO''"
  by code_simp

lemma custno_wrapped: "modernize_column_name_wrapped ai ''CUSTNO'' = ''customer_number''"
  unfolding modernize_column_name_wrapped_def
  by (simp add: custno_strip custno_dict custno_snake custno_valid)

text \<open>
  C3. Resolving \<open>CUSTNO\<close> returns \<open>customer_number\<close> whatever the generative capability
  is (absent, disabled, failing or answering anything): the body returns it before the
  generative stage is reached, and so does the cached function after any sequence of
  earlier resolutions.
\<close>

theorem custno_dictionary_determinism:
  "modernize_column_name_wrapped ai ''CUSTNO'' = ''customer_number''
   \<and> fst (modernize_column_name ai ''CUSTNO'' (modernize_all ai cols cache_clear))
       = ''customer_number''"
  by (simp add: custno_wrapped cached_result cache_ok_all cache_ok_clear)

theorem custno_dictionary_determinism_witness:
  "modernize_column_name_wrapped
       \<lparr>modernizer = Some (\<lambda>prompt max_length. Inr ''client_code''), has_transformers = True\<rparr>
       ''CUSTNO'' = ''customer_number''
   \<and> fst (modernize_column_name
       \<lparr>modernizer = Some (\<lambda>prompt max_length. Inr ''client_code''), has_transformers = True\<rparr>
       ''CUSTNO''
       (modernize_all
          \<lparr>modernizer = Some (\<lambda>prompt max_length. Inr ''client_code''), has_transformers = True\<rparr>
          [''ORDNO'', ''CUSTNO''] cache_clear))
       = ''customer_number''"
  by (rule custno_dictionary_determinism)

section \<open>The validator\<close>

lemma contains_self_prefix: "startswith s p \<Longrightarrow> contains s p"
  by (cases s) (auto simp: startswith_def)

lemma contains_mem: "c \<in> set s \<Longrightarrow> contains s [c]"
  by (induction s) (auto simp: startswith_def)

lemma lower_char_a: "lower_char c = CHR ''a'' \<longleftrightarrow> c = CHR ''a'' \<or> c = CHR ''A''"
  unfolding lower_char_def ascii_uppercase_def ascii_lowercase_def
    latin1_uppercase_def latin1_lowercase_def
  by (auto split: option.splits if_splits)

lemma validate_banned:
  "w \<in> set invalid_patterns \<Longrightarrow> contains (str_lower name) w \<Longrightarrow> \<not> validate_column_name name original"
proof -
  assume w: "w \<in> set invalid_patterns" and c: "contains (str_lower name) w"
  have "str_lower w = w" using w unfolding invalid_patterns_def by (auto; code_simp)
  then have "search_ignorecase w name" using c by (simp add: search_ignorecase_def)
  then have "list_ex (\<lambda>pattern. search_ignorecase pattern name) invalid_patterns"
    using w by (auto simp: list_ex_iff)
  then show ?thesis by (simp add: validate_column_name_def)
qed

lemma validate_no_a:
  "CHR ''a'' \<in> set name \<or> CHR ''A'' \<in> set name \<Longrightarrow> \<not> validate_column_name name original"
proof -
  assume "CHR ''a'' \<in> set name \<or> CHR ''A'' \<in> set name"
  then have "CHR ''a'' \<in> set (str_lower name)"
    using lower_char_a[of "CHR ''a''"] lower_char_a[of "CHR ''A''"]
    by (auto simp: str_lower_def image_iff intro: bexI[of _ "CHR ''a''"] bexI[of _ "CHR ''A''"])
  then have "contains (str_lower name) ''a''" by (rule contains_mem)
  moreover have "''a'' \<in> set invalid_patterns" by (simp add: invalid_patterns_def)
  ultimately show ?thesis by (rule validate_banned[rotated])
qed

lemma unknown_column_no_a: "CHR ''a'' \<notin> set ''unknown_column''"
  by simp

lemma ai_transform_valid:
  "ai_transform ai c = Some n \<Longrightarrow> validate_column_name n c \<and> (\<exists>g. n = clean_column_name g)"
  unfolding ai_transform_def
  by (auto simp: Let_def split: option.splits if_splits sum.splits)

lemma wrapped_cases:
  "modernize_column_name_wrapped ai col = r \<Longrightarrow>
     r = ''unknown_column''
     \<or> (r = analyze_as400_patterns (strip col) \<and> validate_column_name r (strip col))
     \<or> (ai_transform ai (strip col) = Some r)
     \<or> (r = heuristic_transformation (strip col) \<and> validate_column_name r (strip col))
     \<or> r = to_snake_case (strip col)"
  unfolding modernize_column_name_wrapped_def
  by (auto simp: Let_def split: option.splits if_splits)

lemma wrapped_a_fallback:
  assumes "CHR ''a'' \<in> set (modernize_column_name_wrapped ai col)"
  shows "modernize_column_name_wrapped ai col = to_snake_case (strip col)"
  using wrapped_cases[OF refl, of ai col] assms validate_no_a ai_transform_valid
  by (metis unknown_column_no_a)


lemma sub_runs_set: "set (sub_runs P r xs) \<subseteq> set r \<union> {x \<in> set xs. \<not> P x}"
  by (induction P r xs rule: sub_runs.induct) auto

lemma strip_chars_set: "set (strip_chars P s) \<subseteq> set s"
  unfolding strip_chars_def by (auto dest!: set_dropWhileD)

lemma lower_char_newline: "lower_char c = CHR 0x0A \<longleftrightarrow> c = CHR 0x0A"
  unfolding lower_char_def ascii_uppercase_def ascii_lowercase_def
    latin1_uppercase_def latin1_lowercase_def
  by (auto split: option.splits if_splits)

lemma isspace_newline: "isspace (CHR 0x0A)"
  by (simp add: isspace_def whitespace_def)

text \<open>
  No stage returns a name with a line feed in it, so that for the names of the stages
  \<open>$\<close> of the validator's pattern matches at the end of the name only.
\<close>

lemma to_snake_case_newline: "CHR 0x0A \<notin> set (to_snake_case s)"
proof (cases "s = [] \<or> strip s = []")
  case True
  then show ?thesis by (simp add: to_snake_case_def)
next
  case False
  define s2 where "s2 = map (\<lambda>c. if is_word c \<or> isspace c then c else CHR ''_'') (sub_camel (strip s))"
  define s3 where "s3 = sub_runs isspace ''_'' s2"
  define s4 where "s4 = sub_runs (\<lambda>c. c = CHR ''_'') ''_'' s3"
  define r where "r = strip_chars (\<lambda>c. c = CHR ''_'') (str_lower s4)"
  have res: "to_snake_case s = (if r = [] then ''column'' else r)"
    using False by (simp add: to_snake_case_def Let_def r_def s4_def s3_def s2_def)
  have a3: "CHR 0x0A \<notin> set s3"
    using sub_runs_set[of isspace "''_''" s2] isspace_newline unfolding s3_def by auto
  have a4: "CHR 0x0A \<notin> set s4"
    using sub_runs_set[of "\<lambda>c. c = CHR ''_''" "''_''" s3] a3 unfolding s4_def by auto
  have a5: "CHR 0x0A \<notin> set (str_lower s4)"
  proof
    assume "CHR 0x0A \<in> set (str_lower s4)"
    then obtain x where "x \<in> set s4" "lower_char x = CHR 0x0A"
      by (auto simp: str_lower_def)
    then show False using a4 lower_char_newline[of x] by simp
  qed
  have "CHR 0x0A \<notin> set r"
    using a5 strip_chars_set[of "\<lambda>c. c = CHR ''_''" "str_lower s4"] unfolding r_def by blast
  then show ?thesis unfolding res by simp
qed

lemma clean_column_name_newline: "CHR 0x0A \<notin> set (clean_column_name g)"
proof -
  have "\<And>t. CHR 0x0A \<notin> set
          (strip_chars (\<lambda>c. c = CHR ''_'') (sub_runs (\<lambda>c. c = CHR ''_'') ''_'' (to_snake_case t)))"
  proof -
    fix t
    have "CHR 0x0A \<notin> set (sub_runs (\<lambda>c. c = CHR ''_'') ''_'' (to_snake_case t))"
      using sub_runs_set[of "\<lambda>c. c = CHR ''_''" "''_''" "to_snake_case t"] to_snake_case_newline[of t]
      by auto
    then show "CHR 0x0A \<notin> set
          (strip_chars (\<lambda>c. c = CHR ''_'') (sub_runs (\<lambda>c. c = CHR ''_'') ''_'' (to_snake_case t)))"
      using strip_chars_set[of "\<lambda>c. c = CHR ''_''"] by blast
  qed
  then show ?thesis by (simp add: clean_column_name_def Let_def)
qed

lemma as400_values_newline: "list_all (\<lambda>kv. CHR 0x0A \<notin> set (snd kv)) as400_mappings"
  by code_simp

lemma analyze_newline: "CHR 0x0A \<notin> set (analyze_as400_patterns c)"
proof (cases "map_of as400_mappings (str_upper c)")
  case None
  then show ?thesis by (simp add: analyze_as400_patterns_def to_snake_case_newline)
next
  case (Some v)
  then have "(str_upper c, v) \<in> set as400_mappings" by (rule map_of_SomeD)
  then have "CHR 0x0A \<notin> set v" using as400_values_newline by (auto simp: list_all_iff)
  then show ?thesis using Some by (simp add: analyze_as400_patterns_def)
qed

lemma heuristic_newline: "CHR 0x0A \<notin> set (heuristic_transformation c)"
  by (simp add: heuristic_transformation_def Let_def to_snake_case_newline)

lemma validated_snake:
  assumes "validate_column_name n original" "CHR 0x0A \<notin> set n"
  shows "is_snake n \<and> 2 \<le> length n \<and> length n \<le> 40"
proof -
  from assms(1) have len: "2 \<le> length n \<and> length n \<le> 40" and m: "match_snake n"
    by (auto simp: validate_column_name_def split: if_splits)
  from m obtain c cs where n: "n = c # cs" and c: "is_lower c"
    and r: "dropWhile snake_char cs = [] \<or> dropWhile snake_char cs = ''\<newline>''"
    by (cases n) (auto simp: match_snake_def Let_def)
  have "dropWhile snake_char cs \<noteq> ''\<newline>''"
  proof
    assume "dropWhile snake_char cs = ''\<newline>''"
    then have "CHR 0x0A \<in> set (dropWhile snake_char cs)" by simp
    then have "CHR 0x0A \<in> set cs" by (rule set_dropWhileD)
    with assms(2) n show False by simp
  qed
  with r have "dropWhile snake_char cs = []" by simp
  then have "list_all snake_char cs" by (simp add: list_all_iff)
  with n c have "is_snake n" by (simp add: is_snake_def)
  with len show ?thesis by simp
qed

lemma wrapped_snake_or_fallback:
  "modernize_column_name_wrapped ai col = ''unknown_column''
   \<or> (is_snake (modernize_column_name_wrapped ai col)
       \<and> 2 \<le> length (modernize_column_name_wrapped ai col)
       \<and> length (modernize_column_name_wrapped ai col) \<le> 40)
   \<or> modernize_column_name_wrapped ai col = to_snake_case (strip col)"
  using wrapped_cases[OF refl, of ai col] validated_snake analyze_newline heuristic_newline
    clean_column_name_newline ai_transform_valid
  by metis

section \<open>The loop over the columns\<close>

lemma pattern_based_prediction_raises:
  "pattern_based_prediction sample i = Inl bad_character_range"
  by (simp add: pattern_based_prediction_def patterns_def)

lemma predict_cases:
  "predict_column_name_from_data ai cd i = Inr n \<Longrightarrow>
     n = ''column_'' @ str_nat i \<or> n = ''data_column_'' @ str_nat i"
proof -
  assume a: "predict_column_name_from_data ai cd i = Inr n"
  show ?thesis
  proof (cases "cd = []")
    case True
    with a show ?thesis by (simp add: predict_column_name_from_data_def)
  next
    case False
    show ?thesis
    proof (cases "column_sample cd = []")
      case True
      with a False show ?thesis
        by (simp add: predict_column_name_from_data_def Let_def)
    next
      case nonempty: False
      have "predict_column_name_from_data ai cd i = Inl bad_character_range"
        using False nonempty
        by (simp add: predict_column_name_from_data_def Let_def pattern_based_prediction_raises)
      with a show ?thesis by simp
    qed
  qed
qed

lemma columns_loop:
  assumes "cache_ok ai cache"
    and "modernize_columns_from ai df i cols cache = (Inr names, cache')"
  shows "length names = length cols \<and> cache_ok ai cache' \<and>
         (\<forall>k<length cols.
            if is_placeholder (strip (cols ! k))
            then (\<exists>n. predict_column_name_from_data ai (column_data df (i + k)) (i + k) = Inr n
                      \<and> names ! k = final_validation (i + k) n)
            else names ! k = final_validation (i + k)
                               (modernize_column_name_wrapped ai (strip (cols ! k))))"
  using assms
proof (induction cols arbitrary: i cache names cache')
  case Nil
  then show ?case by simp
next
  case (Cons col rest)
  show ?case
  proof (cases "is_placeholder (strip col)")
    case True
    from Cons.prems(2) True obtain n names' where
      p: "predict_column_name_from_data ai (column_data df i) i = Inr n"
      and r: "modernize_columns_from ai df (i + 1) rest cache = (Inr names', cache')"
      and nm: "names = final_validation i n # names'"
      by (auto simp: Let_def split: sum.splits prod.splits)
    from Cons.IH[OF Cons.prems(1) r] have
      ih: "length names' = length rest \<and> cache_ok ai cache' \<and>
         (\<forall>k<length rest.
            if is_placeholder (strip (rest ! k))
            then (\<exists>n. predict_column_name_from_data ai (column_data df (i + 1 + k)) (i + 1 + k) = Inr n
                      \<and> names' ! k = final_validation (i + 1 + k) n)
            else names' ! k = final_validation (i + 1 + k)
                               (modernize_column_name_wrapped ai (strip (rest ! k))))" .
    show ?thesis
    proof (intro conjI allI impI)
      show "length names = length (col # rest)" using ih nm by simp
      show "cache_ok ai cache'" using ih by simp
      fix k assume "k < length (col # rest)"
      then show "if is_placeholder (strip ((col # rest) ! k))
            then (\<exists>n. predict_column_name_from_data ai (column_data df (i + k)) (i + k) = Inr n
                      \<and> names ! k = final_validation (i + k) n)
            else names ! k = final_validation (i + k)
                               (modernize_column_name_wrapped ai (strip ((col # rest) ! k)))"
        using ih nm p True by (cases k) auto
    qed
  next
    case False
    obtain v c1 where mc: "modernize_column_name ai (strip col) cache = (v, c1)"
      by (cases "modernize_column_name ai (strip col) cache")
    have v: "v = modernize_column_name_wrapped ai (strip col)"
      using cached_result[OF Cons.prems(1), of "strip col"] mc by simp
    have c1: "cache_ok ai c1"
      using cache_ok_step[OF Cons.prems(1), of "strip col"] mc by simp
    from Cons.prems(2) False mc obtain names' where
      r: "modernize_columns_from ai df (i + 1) rest c1 = (Inr names', cache')"
      and nm: "names = final_validation i v # names'"
      by (auto simp: Let_def split: sum.splits prod.splits)
    from Cons.IH[OF c1 r] have
      ih: "length names' = length rest \<and> cache_ok ai cache' \<and>
         (\<forall>k<length rest.
            if is_placeholder (strip (rest ! k))
            then (\<exists>n. predict_column_name_from_data ai (column_data df (i + 1 + k)) (i + 1 + k) = Inr n
                      \<and> names' ! k = final_validation (i + 1 + k) n)
            else names' ! k = final_validation (i + 1 + k)
                               (modernize_column_name_wrapped ai (strip (rest ! k))))" .
    show ?thesis
    proof (intro conjI allI impI)
      show "length names = length (col # rest)" using ih nm by simp
      show "cache_ok ai cache'" using ih by simp
      fix k assume "k < length (col # rest)"
      then show "if is_placeholder (strip ((col # rest) ! k))
            then (\<exists>n. predict_column_name_from_data ai (column_data df (i + k)) (i + k) = Inr n
                      \<and> names ! k = final_validation (i + k) n)
            else names ! k = final_validation (i + k)
                               (modernize_column_name_wrapped ai (strip ((col # rest) ! k)))"
        using ih nm v False by (cases k) auto
    qed
  qed
qed

lemma columns_of_result:
  assumes "fst (modernize_column_names ai df cache) = Inr df'"
  shows "\<exists>cache'. modernize_columns_from ai df 0 (columns df) cache = (Inr (columns df'), cache')
           \<and> rows df' = rows df"
  using assms unfolding modernize_column_names_def
  by (auto split: prod.splits sum.splits)

lemma strip_chars_idem: "strip_chars P (strip_chars P s) = strip_chars P s"
proof -
  define t where "t = dropWhile P s"
  define u where "u = rev (dropWhile P (rev t))"
  have tu: "t = u @ rev (takeWhile P (rev t))"
    unfolding u_def by (metis rev_append rev_rev_ident takeWhile_dropWhile_id)
  have d: "dropWhile P u = u"
  proof (cases "u = []")
    case True
    then show ?thesis by simp
  next
    case False
    then have "hd u = hd t" using tu by (metis hd_append2)
    moreover have "t \<noteq> []" using False tu by auto
    then have "\<not> P (hd t)" unfolding t_def by (rule hd_dropWhile)
    ultimately show ?thesis by (simp add: dropWhile_eq_self_iff)
  qed
  have "strip_chars P u = rev (dropWhile P (rev u))"
    by (simp add: strip_chars_def d)
  also have "\<dots> = u" by (simp add: u_def)
  finally show ?thesis by (simp add: strip_chars_def u_def t_def)
qed

lemma strip_idem: "strip (strip s) = strip s"
  by (simp add: strip_def strip_chars_idem)

lemma final_validation_length: "2 \<le> length (final_validation i n)"
  by (simp add: final_validation_def)

lemma reachable_cache_ok: "cache_ok ai (modernize_all ai earlier cache_clear)"
  by (simp add: cache_ok_all cache_ok_clear)

lemma resolved_columns:
  assumes "fst (modernize_column_names ai df (modernize_all ai earlier cache_clear)) = Inr df'"
  shows "length (columns df') = length (columns df) \<and> rows df' = rows df \<and>
         (\<forall>k<length (columns df).
            if is_placeholder (strip (columns df ! k))
            then (\<exists>n. predict_column_name_from_data ai (column_data df k) k = Inr n
                      \<and> columns df' ! k = final_validation k n)
            else columns df' ! k = final_validation k
                               (modernize_column_name_wrapped ai (strip (columns df ! k))))"
proof -
  from columns_of_result[OF assms] obtain cache' where
    l: "modernize_columns_from ai df 0 (columns df) (modernize_all ai earlier cache_clear)
          = (Inr (columns df'), cache')" and r: "rows df' = rows df" by blast
  from columns_loop[OF reachable_cache_ok l, unfolded add_0] r show ?thesis by blast
qed

lemma resolved_column:
  assumes "fst (modernize_column_names ai df (modernize_all ai earlier cache_clear)) = Inr df'"
    and "k < length (columns df)"
  shows "if is_placeholder (strip (columns df ! k))
            then (\<exists>n. predict_column_name_from_data ai (column_data df k) k = Inr n
                      \<and> columns df' ! k = final_validation k n)
            else columns df' ! k = final_validation k
                               (modernize_column_name_wrapped ai (strip (columns df ! k)))"
  using resolved_columns[OF assms(1)] assms(2) by blast

text \<open>
  C2, as amended. The column-modernization step returns one name per original column, in
  the original order, over the same rows, and appends no suffix: the name of a column
  with a proper label is what the resolver returns for that label alone (replaced by
  \<open>column_<i>\<close> only when it is shorter than two characters), whatever the other columns
  resolve to. Two columns whose labels resolve to the same name therefore keep it.
\<close>

theorem no_deduplication:
  assumes "fst (modernize_column_names ai df (modernize_all ai earlier cache_clear)) = Inr df'"
  shows "length (columns df') = length (columns df) \<and> rows df' = rows df \<and>
         (\<forall>i<length (columns df).
            \<not> is_placeholder (strip (columns df ! i)) \<longrightarrow>
              columns df' ! i
                = final_validation i (modernize_column_name_wrapped ai (strip (columns df ! i))))"
proof (intro conjI allI impI)
  show "length (columns df') = length (columns df)" using resolved_columns[OF assms] by blast
  show "rows df' = rows df" using resolved_columns[OF assms] by blast
  fix i assume "i < length (columns df)" "\<not> is_placeholder (strip (columns df ! i))"
  then show "columns df' ! i
                = final_validation i (modernize_column_name_wrapped ai (strip (columns df ! i)))"
    using resolved_column[OF assms, of i] by simp
qed

text \<open>
  C1, as amended. Every resolved column name has at least two characters. It is in the
  language of \<open>^[a-z][a-z0-9_]*$\<close> with at most 40 characters when a validated stage
  (dictionary, generative, heuristic) returned it; otherwise it is the fallback slug of
  the label, which is returned without validation, or one of the labels \<open>column_<i>\<close> and
  \<open>data_column_<i>\<close>.
\<close>

theorem resolved_names_shape:
  assumes "fst (modernize_column_names ai df (modernize_all ai earlier cache_clear)) = Inr df'"
    and "i < length (columns df)"
  shows "2 \<le> length (columns df' ! i)
         \<and> ((is_snake (columns df' ! i) \<and> length (columns df' ! i) \<le> 40)
            \<or> columns df' ! i = to_snake_case (strip (columns df ! i))
            \<or> columns df' ! i = ''column_'' @ str_nat i
            \<or> columns df' ! i = ''data_column_'' @ str_nat i)"
proof (cases "is_placeholder (strip (columns df ! i))")
  case True
  with resolved_column[OF assms] obtain n where
    p: "predict_column_name_from_data ai (column_data df i) i = Inr n"
    and c: "columns df' ! i = final_validation i n" by auto
  from predict_cases[OF p] c show ?thesis
    by (auto simp: final_validation_def)
next
  case False
  define r where "r = modernize_column_name_wrapped ai (strip (columns df ! i))"
  from False resolved_column[OF assms]
  have c: "columns df' ! i = final_validation i r" by (simp add: r_def)
  have u: "is_snake ''unknown_column''" by code_simp
  from wrapped_snake_or_fallback[of ai "strip (columns df ! i)"]
  have "r = ''unknown_column'' \<or> (is_snake r \<and> 2 \<le> length r \<and> length r \<le> 40)
        \<or> r = to_snake_case (strip (columns df ! i))"
    by (simp add: r_def strip_idem)
  then consider (blank) "r = ''unknown_column''"
    | (valid) "is_snake r \<and> 2 \<le> length r \<and> length r \<le> 40"
    | (slug) "r = to_snake_case (strip (columns df ! i))" by blast
  then show ?thesis
  proof cases
    case blank
    have "length ''unknown_column'' = 14" by simp
    then have "final_validation i r = r" "length r = 14"
      unfolding blank final_validation_def by simp_all
    then show ?thesis unfolding c using u blank by simp
  next
    case valid
    then have "final_validation i r = r"
      unfolding final_validation_def by auto
    then show ?thesis unfolding c using valid by simp
  next
    case slug
    show ?thesis
    proof (cases "r = [] \<or> length r < 2")
      case True
      then have "final_validation i r = ''column_'' @ str_nat i"
        unfolding final_validation_def by simp
      then show ?thesis unfolding c by simp
    next
      case False
      then have "final_validation i r = r"
        unfolding final_validation_def by simp
      then show ?thesis unfolding c using False slug by simp
    qed
  qed
qed

text \<open>
  C10, as amended. The banned-pattern check is an unanchored, case-insensitive substring
  search: a candidate that contains one of the banned words, in particular the letter
  \<open>a\<close>, is rejected by the validator. So the generative stage of the name-based resolver
  never returns a name with an \<open>a\<close>, and whenever that resolver returns a name with an
  \<open>a\<close> the dictionary, generative and heuristic stages have all been passed and the name
  is the fallback slug. The content-inference function is not covered: its labels do
  not go through the validator.
\<close>

theorem validator_rejects_banned_substrings:
  "(w \<in> set [''the'', ''a'', ''an'', ''column'', ''field'', ''value'', ''name'',
               ''legacy'', ''original'', ''old'']
      \<and> contains (str_lower name) w \<longrightarrow> \<not> validate_column_name name original)
   \<and> (CHR ''a'' \<in> set name \<longrightarrow> \<not> validate_column_name name original)
   \<and> (ai_transform ai col = Some name \<longrightarrow> CHR ''a'' \<notin> set name)
   \<and> (CHR ''a'' \<in> set (modernize_column_name_wrapped ai col) \<longrightarrow>
        modernize_column_name_wrapped ai col = to_snake_case (strip col))"
proof (intro conjI impI)
  assume "w \<in> set [''the'', ''a'', ''an'', ''column'', ''field'', ''value'', ''name'',
               ''legacy'', ''original'', ''old''] \<and> contains (str_lower name) w"
  then have "w \<in> set invalid_patterns" and "contains (str_lower name) w"
    by (auto simp: invalid_patterns_def)
  then show "\<not> validate_column_name name original" by (rule validate_banned)
next
  assume "CHR ''a'' \<in> set name"
  then show "\<not> validate_column_name name original" using validate_no_a by blast
next
  assume a: "ai_transform ai col = Some name"
  show "CHR ''a'' \<notin> set name"
    using ai_transform_valid[OF a] validate_no_a by blast
next
  assume "CHR ''a'' \<in> set (modernize_column_name_wrapped ai col)"
  then show "modernize_column_name_wrapped ai col = to_snake_case (strip col)"
    by (rule wrapped_a_fallback)
qed

text \<open>
  The claim C1 as stated fails: with no model loaded, the label \<open>123\<close> resolves to \<open>123\<close>,
  which does not start with a letter, and a label of 46 characters resolves to a slug
  of 46 characters.
\<close>

theorem resolved_name_shape_counterexample:
  "fst (modernize_column_names no_ai
          \<lparr>columns = [''123'', ''TOTAL_OUTSTANDING_INVOICE_BALANCE_PER_CUSTOMER''],
           rows = [[Some ''7'', Some ''8'']]\<rparr> cache_clear)
     = Inr \<lparr>columns = [''123'', ''total_outstanding_invoice_balance_per_customer''],
            rows = [[Some ''7'', Some ''8'']]\<rparr>
   \<and> \<not> match_snake ''123''
   \<and> \<not> is_snake ''123''
   \<and> length ''total_outstanding_invoice_balance_per_customer'' = 46"
  by code_simp

text \<open>
  The claim C2 as stated fails: \<open>CUSTNO\<close> and \<open>CUSTNUM\<close> both resolve to
  \<open>customer_number\<close>, and the resolved table has that name twice.
\<close>

theorem duplicate_names_counterexample:
  "fst (modernize_column_names no_ai
          \<lparr>columns = [''CUSTNO'', ''CUSTNUM''], rows = [[Some ''1001'', Some ''1001'']]\<rparr> cache_clear)
     = Inr \<lparr>columns = [''customer_number'', ''customer_number''],
            rows = [[Some ''1001'', Some ''1001'']]\<rparr>
   \<and> \<not> distinct [''customer_number'', ''customer_number'']"
  by code_simp

text \<open>
  The claim C10 as stated fails for the content-inference stage: for a placeholder
  column whose sampled values are all blank it returns \<open>data_column_0\<close>, which contains
  an \<open>a\<close> and which the validator would reject, and that name is the resolved name.
\<close>

theorem unvalidated_content_label_counterexample:
  "predict_column_name_from_data no_ai [Some '' ''] 0 = Inr ''data_column_0''
   \<and> fst (modernize_column_names no_ai
          \<lparr>columns = [''col_0'', ''ID''], rows = [[Some '' '', Some ''7'']]\<rparr> cache_clear)
       = Inr \<lparr>columns = [''data_column_0'', ''id''], rows = [[Some '' '', Some ''7'']]\<rparr>
   \<and> CHR ''a'' \<in> set ''data_column_0''
   \<and> \<not> validate_column_name ''data_column_0'' ''col_0''"
  by code_simp


theorem resolved_names_shape_witness:
  "fst (modernize_column_names no_ai
          \<lparr>columns = [''CUSTNO'', ''123''], rows = [[Some ''1001'', Some ''7'']]\<rparr>
          (modernize_all no_ai [''EMPNO''] cache_clear))
     = Inr \<lparr>columns = [''customer_number'', ''123''], rows = [[Some ''1001'', Some ''7'']]\<rparr>
   \<and> 2 \<le> length (columns \<lparr>columns = [''customer_number'', ''123''],
                             rows = [[Some ''1001'', Some ''7'']]\<rparr> ! 0)
   \<and> ((is_snake (columns \<lparr>columns = [''customer_number'', ''123''],
                            rows = [[Some ''1001'', Some ''7'']]\<rparr> ! 0)
        \<and> length (columns \<lparr>columns = [''customer_number'', ''123''],
                             rows = [[Some ''1001'', Some ''7'']]\<rparr> ! 0) \<le> 40)
      \<or> columns \<lparr>columns = [''customer_number'', ''123''],
                   rows = [[Some ''1001'', Some ''7'']]\<rparr> ! 0
          = to_snake_case (strip (columns \<lparr>columns = [''CUSTNO'', ''123''],
                                           rows = [[Some ''1001'', Some ''7'']]\<rparr> ! 0))
      \<or> columns \<lparr>columns = [''customer_number'', ''123''],
                   rows = [[Some ''1001'', Some ''7'']]\<rparr> ! 0 = ''column_'' @ str_nat 0
      \<or> columns \<lparr>columns = [''customer_number'', ''123''],
                   rows = [[Some ''1001'', Some ''7'']]\<rparr> ! 0 = ''data_column_'' @ str_nat 0)"
proof -
  have h: "fst (modernize_column_names no_ai
          \<lparr>columns = [''CUSTNO'', ''123''], rows = [[Some ''1001'', Some ''7'']]\<rparr>
          (modernize_all no_ai [''EMPNO''] cache_clear))
     = Inr \<lparr>columns = [''customer_number'', ''123''], rows = [[Some ''1001'', Some ''7'']]\<rparr>"
    by code_simp
  have i: "0 < length (columns \<lparr>columns = [''CUSTNO'', ''123''],
                                 rows = [[Some ''1001'', Some ''7'']]\<rparr>)"
    by simp
  from resolved_names_shape[OF h i] h show ?thesis by blast
qed

theorem no_deduplication_witness:
  "fst (modernize_column_names no_ai
          \<lparr>columns = [''CUSTNO'', ''CUSTNUM''], rows = [[Some ''1001'', Some ''1001'']]\<rparr>
          (modernize_all no_ai [] cache_clear))
     = Inr \<lparr>columns = [''customer_number'', ''customer_number''],
            rows = [[Some ''1001'', Some ''1001'']]\<rparr>
   \<and> columns \<lparr>columns = [''customer_number'', ''customer_number''],
               rows = [[Some ''1001'', Some ''1001'']]\<rparr> ! 1
       = final_validation 1
           (modernize_column_name_wrapped no_ai
              (strip (columns \<lparr>columns = [''CUSTNO'', ''CUSTNUM''],
                               rows = [[Some ''1001'', Some ''1001'']]\<rparr> ! 1)))"
proof -
  have h: "fst (modernize_column_names no_ai
          \<lparr>columns = [''CUSTNO'', ''CUSTNUM''], rows = [[Some ''1001'', Some ''1001'']]\<rparr>
          (modernize_all no_ai [] cache_clear))
     = Inr \<lparr>columns = [''customer_number'', ''customer_number''],
            rows = [[Some ''1001'', Some ''1001'']]\<rparr>"
    by code_simp
  have i: "1 < length (columns \<lparr>columns = [''CUSTNO'', ''CUSTNUM''],
                                 rows = [[Some ''1001'', Some ''1001'']]\<rparr>)"
    by simp
  have p: "\<not> is_placeholder (strip (columns \<lparr>columns = [''CUSTNO'', ''CUSTNUM''],
                               rows = [[Some ''1001'', Some ''1001'']]\<rparr> ! 1))"
    by code_simp
  from no_deduplication[OF h] i p h show ?thesis by blast
qed

theorem validator_rejects_banned_substrings_witness:
  "contains (str_lower ''customer_name'') ''name''
   \<and> \<not> validate_column_name ''customer_name'' ''CUSTNAME''
   \<and> CHR ''a'' \<in> set ''address_line_1''
   \<and> \<not> validate_column_name ''address_line_1'' ''ADDR1''
   \<and> ai_transform \<lparr>modernizer = Some (\<lambda>prompt max_length. Inr ''Client Code''),
                    has_transformers = True\<rparr> ''CLCD'' = Some ''client_code''
   \<and> CHR ''a'' \<notin> set ''client_code''
   \<and> CHR ''a'' \<in> set (modernize_column_name_wrapped no_ai ''HIREDATE'')
   \<and> modernize_column_name_wrapped no_ai ''HIREDATE'' = to_snake_case (strip ''HIREDATE'')"
proof -
  have a: "''name'' \<in> set [''the'', ''a'', ''an'', ''column'', ''field'', ''value'', ''name'',
               ''legacy'', ''original'', ''old'']" by simp
  have b: "contains (str_lower ''customer_name'') ''name''" by code_simp
  have c: "CHR ''a'' \<in> set ''address_line_1''" by simp
  have d: "ai_transform \<lparr>modernizer = Some (\<lambda>prompt max_length. Inr ''Client Code''),
                    has_transformers = True\<rparr> ''CLCD'' = Some ''client_code''" by code_simp
  have e: "CHR ''a'' \<in> set (modernize_column_name_wrapped no_ai ''HIREDATE'')" by code_simp
  from validator_rejects_banned_substrings[of "''name''" "''customer_name''" "''CUSTNAME''"] a b
  have 1: "\<not> validate_column_name ''customer_name'' ''CUSTNAME''" by blast
  from validator_rejects_banned_substrings[of _ "''address_line_1''" "''ADDR1''"] c
  have 2: "\<not> validate_column_name ''address_line_1'' ''ADDR1''" by blast
  from validator_rejects_banned_substrings[of _ "''client_code''" _
      "\<lparr>modernizer = Some (\<lambda>prompt max_length. Inr ''Client Code''), has_transformers = True\<rparr>"
      "''CLCD''"] d
  have 3: "CHR ''a'' \<notin> set ''client_code''" by blast
  from validator_rejects_banned_substrings[of _ _ _ no_ai "''HIREDATE''"] e
  have 4: "modernize_column_name_wrapped no_ai ''HIREDATE'' = to_snake_case (strip ''HIREDATE'')"
    by blast
  from b 1 c 2 d 3 e 4 show ?thesis by blast
qed

section \<open>The decoder\<close>

text \<open>
  C8. UTF-8 decoding with \<open>errors="ignore"\<close> returns a string for the given bytes (the
  contract of the codec, here the hypothesis). Then the decoder returns a string: the
  text decoded with the detected encoding when detection and that decoding succeed,
  and the lossy UTF-8 text when detection finds no encoding, when detection raises and
  when decoding with the detected encoding raises.
\<close>

theorem safe_decode_never_raises:
  assumes "bytes_decode lib raw_bytes ''utf-8'' = Inr fallback"
  shows "(\<exists>text. safe_decode lib raw_bytes = Inr text)
     \<and> (chardet_encoding lib raw_bytes = Inr (Some enc) \<and> enc \<noteq> []
          \<and> bytes_decode lib raw_bytes enc = Inr text
        \<longrightarrow> safe_decode lib raw_bytes = Inr text)
     \<and> (chardet_encoding lib raw_bytes = Inr None \<longrightarrow> safe_decode lib raw_bytes = Inr fallback)
     \<and> (chardet_encoding lib raw_bytes = Inl e \<longrightarrow> safe_decode lib raw_bytes = Inr fallback)
     \<and> (chardet_encoding lib raw_bytes = Inr (Some enc) \<and> bytes_decode lib raw_bytes enc = Inl e
        \<longrightarrow> safe_decode lib raw_bytes = Inr fallback)"
  using assms unfolding safe_decode_def
  by (auto simp: Let_def split: sum.splits option.splits)

theorem safe_decode_never_raises_witness:
  "bytes_decode
      (stub_library\<lparr>chardet_encoding := (\<lambda>raw. Inr (Some ''EBCDIC-37'')),
                     bytes_decode := (\<lambda>raw enc. if enc = ''utf-8'' then Inr raw
                                                 else Inl (LibraryError ''unknown encoding''))\<rparr>)
      ''CUSTNO'' ''utf-8'' = Inr ''CUSTNO''
   \<and> safe_decode
      (stub_library\<lparr>chardet_encoding := (\<lambda>raw. Inr (Some ''EBCDIC-37'')),
                     bytes_decode := (\<lambda>raw enc. if enc = ''utf-8'' then Inr raw
                                                 else Inl (LibraryError ''unknown encoding''))\<rparr>)
      ''CUSTNO'' = Inr ''CUSTNO''"
proof -
  let ?lib = "stub_library\<lparr>chardet_encoding := (\<lambda>raw. Inr (Some ''EBCDIC-37'')),
                     bytes_decode := (\<lambda>raw enc. if enc = ''utf-8'' then Inr raw
                                                 else Inl (LibraryError ''unknown encoding''))\<rparr>"
  have h: "bytes_decode ?lib ''CUSTNO'' ''utf-8'' = Inr ''CUSTNO''" by simp
  have c: "chardet_encoding ?lib ''CUSTNO'' = Inr (Some ''EBCDIC-37'')" by simp
  have d: "bytes_decode ?lib ''CUSTNO'' ''EBCDIC-37'' = Inl (LibraryError ''unknown encoding'')"
    by simp
  from safe_decode_never_raises[OF h, of "''EBCDIC-37''" _ "LibraryError ''unknown encoding''"] c d
  have "safe_decode ?lib ''CUSTNO'' = Inr ''CUSTNO''" by blast
  with h show ?thesis by blast
qed

section \<open>Empty tables\<close>

lemma df_empty_dropna: "df_empty df \<Longrightarrow> df_empty (dropna_all df)"
  by (auto simp: df_empty_def dropna_all_def)

lemma df_empty_dropna_columns:
  "length cs = length (columns df) \<Longrightarrow>
   df_empty (dropna_all (df\<lparr>columns := cs\<rparr>)) = df_empty (dropna_all df)"
  by (auto simp: df_empty_def dropna_all_def)

lemma process_parsed_empty:
  assumes "df_empty (dropna_all df)"
  shows "process_parsed ai file ext export df cache
           = (Inl (HTTPException 400 ''No data found in file''), cache)
         \<or> process_parsed ai file ext export df cache
           = (Inl (HTTPException 400 ''No valid data rows found''), cache)"
proof (cases "df_empty df")
  case True
  then show ?thesis by (simp add: process_parsed_def)
next
  case False
  have "df_empty (dropna_all (df\<lparr>columns := map (\<lambda>(i, c). if strip c \<noteq> [] then c else ''col_'' @ str_nat i)
                                   (enumerate 0 (columns df))\<rparr>))"
    using assms by (simp add: df_empty_dropna_columns)
  with False show ?thesis by (simp add: process_parsed_def Let_def)
qed

text \<open>
  C9. When the parsed table has no row or no column left once the rows with only
  missing cells are removed, \<open>process_file\<close> raises an \<open>HTTPException\<close> with status 400
  (\<open>No data found in file\<close> or \<open>No valid data rows found\<close>) and returns no table; the
  cache is untouched.
\<close>

theorem empty_result_error:
  assumes "safe_decode lib (content file) = Inr text"
    and "parse_by_extension lib (file_extension (filename file)) (content file) text = Inr df"
    and "df_empty (dropna_all df)"
  shows "process_file lib ai file export cache
           = (Inl (HTTPException 400 ''No data found in file''), cache)
         \<or> process_file lib ai file export cache
           = (Inl (HTTPException 400 ''No valid data rows found''), cache)"
  using process_parsed_empty[OF assms(3), of ai "file" "file_extension (filename file)" export cache]
    assms(1,2)
  by (auto simp: process_file_def Let_def outer_handler_def)


theorem empty_result_error_witness:
  "safe_decode
      (stub_library\<lparr>bytes_decode := (\<lambda>raw enc. Inr raw),
                     read_csv := (\<lambda>text sep. simple_read_csv text (Some '',''))\<rparr>)
      (content \<lparr>filename = Some ''orders.csv'', content = ''CUSTNO,QTY''\<rparr>) = Inr ''CUSTNO,QTY''
   \<and> parse_by_extension
      (stub_library\<lparr>bytes_decode := (\<lambda>raw enc. Inr raw),
                     read_csv := (\<lambda>text sep. simple_read_csv text (Some '',''))\<rparr>)
      (file_extension (filename \<lparr>filename = Some ''orders.csv'', content = ''CUSTNO,QTY''\<rparr>))
      (content \<lparr>filename = Some ''orders.csv'', content = ''CUSTNO,QTY''\<rparr>) ''CUSTNO,QTY''
       = Inr \<lparr>columns = [''CUSTNO'', ''QTY''], rows = []\<rparr>
   \<and> df_empty (dropna_all \<lparr>columns = [''CUSTNO'', ''QTY''], rows = []\<rparr>)
   \<and> (process_file
        (stub_library\<lparr>bytes_decode := (\<lambda>raw enc. Inr raw),
                       read_csv := (\<lambda>text sep. simple_read_csv text (Some '',''))\<rparr>)
        no_ai \<lparr>filename = Some ''orders.csv'', content = ''CUSTNO,QTY''\<rparr> ''pandas'' cache_clear
          = (Inl (HTTPException 400 ''No data found in file''), cache_clear)
      \<or> process_file
        (stub_library\<lparr>bytes_decode := (\<lambda>raw enc. Inr raw),
                       read_csv := (\<lambda>text sep. simple_read_csv text (Some '',''))\<rparr>)
        no_ai \<lparr>filename = Some ''orders.csv'', content = ''CUSTNO,QTY''\<rparr> ''pandas'' cache_clear
          = (Inl (HTTPException 400 ''No valid data rows found''), cache_clear))"
proof -
  let ?lib = "stub_library\<lparr>bytes_decode := (\<lambda>raw enc. Inr raw),
                     read_csv := (\<lambda>text sep. simple_read_csv text (Some '',''))\<rparr>"
  let ?file = "\<lparr>filename = Some ''orders.csv'', content = ''CUSTNO,QTY''\<rparr>"
  have h1: "safe_decode ?lib (content ?file) = Inr ''CUSTNO,QTY''"
    by code_simp
  have h2: "parse_by_extension ?lib (file_extension (filename ?file)) (content ?file) ''CUSTNO,QTY''
              = Inr \<lparr>columns = [''CUSTNO'', ''QTY''], rows = []\<rparr>"
    by code_simp
  have h3: "df_empty (dropna_all \<lparr>columns = [''CUSTNO'', ''QTY''], rows = []\<rparr>)"
    by code_simp
  from empty_result_error[OF h1 h2 h3, of no_ai "''pandas''" cache_clear] h1 h2 h3
  show ?thesis by blast
qed

section \<open>The fallback delimiters\<close>

lemma try_delimiters_first:
  assumes "k < length ds"
    and "read_csv lib content_str (Some (ds ! k)) = Inr df" and "usable df"
    and "\<forall>j<k. \<forall>df'. read_csv lib content_str (Some (ds ! j)) = Inr df' \<longrightarrow> \<not> usable df'"
  shows "try_delimiters lib content_str ds = Some df"
  using assms
proof (induction ds arbitrary: k)
  case Nil
  then show ?case by simp
next
  case (Cons d ds)
  show ?case
  proof (cases k)
    case 0
    with Cons.prems show ?thesis by simp
  next
    case (Suc k')
    from Cons.prems(4) Suc have first: "\<forall>df'. read_csv lib content_str (Some d) = Inr df' \<longrightarrow> \<not> usable df'"
      by (metis nth_Cons_0 zero_less_Suc)
    have rest: "\<forall>j<k'. \<forall>df'. read_csv lib content_str (Some (ds ! j)) = Inr df' \<longrightarrow> \<not> usable df'"
    proof (intro allI impI)
      fix j df' assume "j < k'" "read_csv lib content_str (Some (ds ! j)) = Inr df'"
      then show "\<not> usable df'" using Cons.prems(4) Suc
        by (metis Suc_less_eq nth_Cons_Suc)
    qed
    have "try_delimiters lib content_str ds = Some df"
      using Cons.IH[of k'] Cons.prems(1,2,3) Suc rest by simp
    then show ?thesis using first by (simp split: sum.splits)
  qed
qed

lemma sniffed_attempt_fails:
  assumes "(\<exists>e. csv_sniff lib (take 8192 content_str) ('',;'' @ [CHR 0x09] @ ''|'') = Inl e)
         \<or> (\<exists>d. csv_sniff lib (take 8192 content_str) ('',;'' @ [CHR 0x09] @ ''|'') = Inr d
                \<and> ((\<exists>e. read_csv lib content_str (Some d) = Inl e)
                    \<or> (\<exists>df0. read_csv lib content_str (Some d) = Inr df0
                              \<and> length (columns df0) \<le> 1)))"
  shows "sniffed_attempt lib content_str = None"
  using assms unfolding sniffed_attempt_def
  by (auto simp: usable_def split: sum.splits)

text \<open>
  C5. Suppose the fixed-width attempt returned nothing and sniffing raised, or the parse
  with the sniffed delimiter raised or gave at most one column. Then the candidates
  comma, tab, pipe, semicolon, space are tried in this order, and the table of the first
  one whose parse has more than one column and at least one row is returned. The
  instance below it is a text whose only separator is \<open>|\<close>.
\<close>

theorem delimiter_fallback:
  assumes "fixed_width_attempt lib content_str = None"
    and "(\<exists>e. csv_sniff lib (take 8192 content_str) ('',;'' @ [CHR 0x09] @ ''|'') = Inl e)
         \<or> (\<exists>d. csv_sniff lib (take 8192 content_str) ('',;'' @ [CHR 0x09] @ ''|'') = Inr d
                \<and> ((\<exists>e. read_csv lib content_str (Some d) = Inl e)
                    \<or> (\<exists>df0. read_csv lib content_str (Some d) = Inr df0
                              \<and> length (columns df0) \<le> 1)))"
    and "k < length ['','', [CHR 0x09], ''|'', '';'', '' '']"
    and "read_csv lib content_str (Some (['','', [CHR 0x09], ''|'', '';'', '' ''] ! k)) = Inr df"
    and "length (columns df) > 1" and "length (rows df) > 0"
    and "\<forall>j<k. \<forall>df'. read_csv lib content_str (Some (['','', [CHR 0x09], ''|'', '';'', '' ''] ! j)) = Inr df'
           \<longrightarrow> \<not> (length (columns df') > 1 \<and> length (rows df') > 0)"
  shows "detect_delimiter_and_read_text lib content_str = Inr df"
proof -
  have s: "sniffed_attempt lib content_str = None"
    using assms(2) by (rule sniffed_attempt_fails)
  have u: "usable df" using assms(5,6) by (simp add: usable_def)
  have "try_delimiters lib content_str delimiters_to_try = Some df"
    using try_delimiters_first[of k delimiters_to_try lib content_str df] assms(3,4,7) u
    by (simp add: delimiters_to_try_def usable_def)
  then show ?thesis using assms(1) s by (simp add: detect_delimiter_and_read_text_def)
qed


theorem delimiter_fallback_witness:
  "fixed_width_attempt (stub_library\<lparr>read_csv := simple_read_csv\<rparr>)
       ''id|qty\<newline>1|5\<newline>2|7'' = None
   \<and> read_csv (stub_library\<lparr>read_csv := simple_read_csv\<rparr>)
       ''id|qty\<newline>1|5\<newline>2|7'' (Some ''|'')
       = Inr \<lparr>columns = [''id'', ''qty''],
              rows = [[Some ''1'', Some ''5''], [Some ''2'', Some ''7'']]\<rparr>
   \<and> detect_delimiter_and_read_text (stub_library\<lparr>read_csv := simple_read_csv\<rparr>)
       ''id|qty\<newline>1|5\<newline>2|7''
       = Inr \<lparr>columns = [''id'', ''qty''],
              rows = [[Some ''1'', Some ''5''], [Some ''2'', Some ''7'']]\<rparr>"
proof -
  let ?lib = "stub_library\<lparr>read_csv := simple_read_csv\<rparr>"
  let ?text = "''id|qty\<newline>1|5\<newline>2|7''"
  let ?df = "\<lparr>columns = [''id'', ''qty''],
              rows = [[Some ''1'', Some ''5''], [Some ''2'', Some ''7'']]\<rparr>"
  have h1: "fixed_width_attempt ?lib ?text = None"
    by code_simp
  have "csv_sniff ?lib (take 8192 ?text) ('',;'' @ [CHR 0x09] @ ''|'')
          = Inl (LibraryError ''Could not determine delimiter'')"
    by (simp add: stub_library_def)
  then have h2: "(\<exists>e. csv_sniff ?lib (take 8192 ?text) ('',;'' @ [CHR 0x09] @ ''|'') = Inl e)
         \<or> (\<exists>d. csv_sniff ?lib (take 8192 ?text) ('',;'' @ [CHR 0x09] @ ''|'') = Inr d
                \<and> ((\<exists>e. read_csv ?lib ?text (Some d) = Inl e)
                    \<or> (\<exists>df0. read_csv ?lib ?text (Some d) = Inr df0
                              \<and> length (columns df0) \<le> 1)))"
    by blast
  have h3: "2 < length ['','', [CHR 0x09], ''|'', '';'', '' '']"
    by simp
  have h4: "read_csv ?lib ?text (Some (['','', [CHR 0x09], ''|'', '';'', '' ''] ! 2)) = Inr ?df"
    by code_simp
  have h5: "length (columns ?df) > 1" and h6: "length (rows ?df) > 0"
    by simp_all
  have r0: "read_csv ?lib ?text (Some (['','', [CHR 0x09], ''|'', '';'', '' ''] ! 0))
              = Inr \<lparr>columns = [''id|qty''], rows = [[Some ''1|5''], [Some ''2|7'']]\<rparr>"
    by code_simp
  have r1: "read_csv ?lib ?text (Some (['','', [CHR 0x09], ''|'', '';'', '' ''] ! 1))
              = Inr \<lparr>columns = [''id|qty''], rows = [[Some ''1|5''], [Some ''2|7'']]\<rparr>"
    by code_simp
  have h7: "\<forall>j<2. \<forall>df'. read_csv ?lib ?text (Some (['','', [CHR 0x09], ''|'', '';'', '' ''] ! j)) = Inr df'
           \<longrightarrow> \<not> (length (columns df') > 1 \<and> length (rows df') > 0)"
  proof (intro allI impI)
    fix j :: nat and df'
    assume j: "j < 2"
      and r: "read_csv ?lib ?text (Some (['','', [CHR 0x09], ''|'', '';'', '' ''] ! j)) = Inr df'"
    from j consider "j = 0" | "j = 1" by linarith
    then have "df' = \<lparr>columns = [''id|qty''], rows = [[Some ''1|5''], [Some ''2|7'']]\<rparr>"
    proof cases
      case 1
      with r r0 show ?thesis by simp
    next
      case 2
      with r r1 show ?thesis by simp
    qed
    then show "\<not> (length (columns df') > 1 \<and> length (rows df') > 0)" by simp
  qed
  have h4': "read_csv ?lib ?text (Some ''|'') = Inr ?df"
    using h4 by simp
  from delimiter_fallback[OF h1 h2 h3 h4 h5 h6 h7] h1 h4' show ?thesis by blast
qed

section \<open>The cache holds 1024 entries\<close>

lemma miss_step:
  assumes "col \<notin> set (cache_keys cache)"
  shows "modernize_column_name ai col cache
           = (modernize_column_name_wrapped ai col,
              cache\<lparr>entries := take maxsize ((col, modernize_column_name_wrapped ai col) # entries cache),
                     misses := misses cache + 1\<rparr>)"
proof -
  have "map_of (entries cache) col = None"
    using assms by (simp add: cache_keys_def map_of_eq_None_iff)
  then show ?thesis by (simp add: modernize_column_name_def Let_def)
qed

lemma hit_step:
  assumes "map_of (entries cache) col = Some v"
  shows "modernize_column_name ai col cache
           = (v, cache\<lparr>entries := (col, v) # filter (\<lambda>kv. fst kv \<noteq> col) (entries cache),
                        hits := hits cache + 1\<rparr>)"
  using assms by (simp add: modernize_column_name_def)

lemma keys_hit: "map fst (filter (\<lambda>kv. fst kv \<noteq> col) es) = filter (\<lambda>k. k \<noteq> col) (map fst es)"
  by (induction es) auto

lemma keys_after:
  "cache_keys (snd (modernize_column_name ai col cache))
     = (if col \<in> set (cache_keys cache)
        then col # filter (\<lambda>k. k \<noteq> col) (cache_keys cache)
        else take maxsize (col # cache_keys cache))"
proof (cases "col \<in> set (cache_keys cache)")
  case True
  then obtain v where "map_of (entries cache) col = Some v"
    by (cases "map_of (entries cache) col") (auto simp: cache_keys_def map_of_eq_None_iff)
  from hit_step[OF this, of ai] True show ?thesis
    by (simp add: cache_keys_def keys_hit)
next
  case False
  have "map fst (take maxsize ((col, modernize_column_name_wrapped ai col) # entries cache))
          = take maxsize (map fst ((col, modernize_column_name_wrapped ai col) # entries cache))"
    by (rule take_map[symmetric])
  with miss_step[OF False, of ai] False show ?thesis
    by (simp add: cache_keys_def)
qed

lemma keys_distinct_step:
  "distinct (cache_keys cache) \<Longrightarrow> distinct (cache_keys (snd (modernize_column_name ai col cache)))"
  by (simp add: keys_after)

lemma keys_bounded_step:
  "length (cache_keys cache) \<le> maxsize \<Longrightarrow>
   length (cache_keys (snd (modernize_column_name ai col cache))) \<le> maxsize"
proof (cases "col \<in> set (cache_keys cache)")
  case True
  assume b: "length (cache_keys cache) \<le> maxsize"
  have "length (filter (\<lambda>k. k \<noteq> col) (cache_keys cache)) < length (cache_keys cache)"
    using True by (simp add: length_filter_less)
  with b True show ?thesis by (simp add: keys_after)
next
  case False
  then show ?thesis by (simp add: keys_after)
qed

lemma keys_distinct_all:
  "distinct (cache_keys cache) \<Longrightarrow> distinct (cache_keys (modernize_all ai cols cache))"
  by (induction cols arbitrary: cache) (simp_all add: keys_distinct_step)

lemma keys_bounded_all:
  "length (cache_keys cache) \<le> maxsize \<Longrightarrow>
   length (cache_keys (modernize_all ai cols cache)) \<le> maxsize"
  by (induction cols arbitrary: cache) (simp_all add: keys_bounded_step)

lemma take_append_take: "take n (xs @ take n ys) = take n (xs @ ys)"
  by (simp add: min_def)

lemma fresh_sequence:
  assumes "distinct cols" and "set cols \<inter> set (cache_keys cache) = {}"
    and "length (cache_keys cache) \<le> maxsize"
  shows "cache_keys (modernize_all ai cols cache) = take maxsize (rev cols @ cache_keys cache)
         \<and> misses (modernize_all ai cols cache) = misses cache + length cols"
  using assms
proof (induction cols arbitrary: cache)
  case Nil
  then show ?case by simp
next
  case (Cons col cols)
  let ?c1 = "snd (modernize_column_name ai col cache)"
  have fresh: "col \<notin> set (cache_keys cache)" using Cons.prems(2) by simp
  have k1: "cache_keys ?c1 = take maxsize (col # cache_keys cache)"
    using fresh by (simp add: keys_after)
  have m1: "misses ?c1 = misses cache + 1"
    using miss_step[OF fresh, of ai] by simp
  have "set cols \<inter> set (cache_keys ?c1) = {}"
  proof -
    have "set (cache_keys ?c1) \<subseteq> insert col (set (cache_keys cache))"
      unfolding k1 using set_take_subset[of maxsize "col # cache_keys cache"] by simp
    then show ?thesis using Cons.prems(1,2) by auto
  qed
  from Cons.IH[OF _ this keys_bounded_step[OF Cons.prems(3)]] Cons.prems(1)
  have "cache_keys (modernize_all ai cols ?c1) = take maxsize (rev cols @ cache_keys ?c1)"
    and "misses (modernize_all ai cols ?c1) = misses ?c1 + length cols" by simp_all
  then show ?case
    using k1 m1 by (simp add: take_append_take del: take_append)
qed

lemma lru_evicts:
  assumes "distinct (c0 # cols)" and "maxsize \<le> length cols"
  shows "map_of (entries (modernize_all ai (c0 # cols) cache_clear)) c0 = None
         \<and> misses (modernize_all ai (c0 # cols) cache_clear) = Suc (length cols)"
proof -
  have e: "cache_keys cache_clear = []" by (simp add: cache_keys_def cache_clear_def)
  have m0: "misses cache_clear = 0" by (simp add: cache_clear_def)
  from fresh_sequence[OF assms(1), of cache_clear ai] e m0
  have k: "cache_keys (modernize_all ai (c0 # cols) cache_clear) = take maxsize (rev cols @ [c0])"
    and m: "misses (modernize_all ai (c0 # cols) cache_clear) = Suc (length cols)"
    by simp_all
  have "take maxsize (rev cols @ [c0]) = take maxsize (rev cols)"
    using assms(2) by simp
  then have "c0 \<notin> set (cache_keys (modernize_all ai (c0 # cols) cache_clear))"
    using k assms(1) by (auto dest: in_set_takeD)
  then have "map_of (entries (modernize_all ai (c0 # cols) cache_clear)) c0 = None"
    by (simp add: cache_keys_def map_of_eq_None_iff)
  with m show ?thesis by simp
qed

lemma wide_label_inj: "inj wide_label"
  by (rule injI) (metis wide_label_def length_replicate nat.inject)

lemma modernize_all_append:
  "modernize_all ai (xs @ ys) cache = modernize_all ai ys (modernize_all ai xs cache)"
  by (induction xs arbitrary: cache) simp_all

text \<open>
  The claim C7 as stated fails: after the 1025 different labels \<open>X\<close>, \<open>XX\<close>, ... have been
  resolved, the first of them is no longer in the cache (1025 misses so far), and
  resolving it once more is another miss: the body runs again.
\<close>

theorem cache_eviction_counterexample:
  "map_of (entries (modernize_all no_ai (map wide_label [0..<1025]) cache_clear)) (wide_label 0) = None
   \<and> misses (modernize_all no_ai (map wide_label [0..<1025]) cache_clear) = 1025
   \<and> misses (modernize_all no_ai (map wide_label [0..<1025] @ [wide_label 0]) cache_clear) = 1026"
proof -
  let ?rest = "map wide_label [Suc 0..<1025]"
  have "[0..<1025] = 0 # [Suc 0..<1025]"
    by (rule upt_conv_Cons) simp
  then have split: "map wide_label [0..<1025] = wide_label 0 # ?rest"
    by (simp only: list.map)
  have d: "distinct (wide_label 0 # ?rest)"
    unfolding split[symmetric]
    by (simp only: distinct_map distinct_upt; metis wide_label_inj inj_on_subset subset_UNIV)
  have l: "maxsize \<le> length ?rest"
    by (simp only: length_map length_upt maxsize_def; simp)
  have len: "Suc (length ?rest) = 1025"
    by (simp only: length_map length_upt; simp)
  from lru_evicts[OF d l, of no_ai]
  have a: "map_of (entries (modernize_all no_ai (wide_label 0 # ?rest) cache_clear)) (wide_label 0) = None"
    and b: "misses (modernize_all no_ai (wide_label 0 # ?rest) cache_clear) = 1025"
    unfolding len by simp_all
  have "wide_label 0 \<notin> set (cache_keys (modernize_all no_ai (wide_label 0 # ?rest) cache_clear))"
    using a by (simp add: cache_keys_def map_of_eq_None_iff)
  from miss_step[OF this, of no_ai] b
  have c: "misses (snd (modernize_column_name no_ai (wide_label 0)
             (modernize_all no_ai (wide_label 0 # ?rest) cache_clear))) = 1026"
    by simp
  show ?thesis
    unfolding split modernize_all_append using a b c by simp
qed


lemma takeWhile_filter_commute:
  "(\<And>x. \<not> P x \<Longrightarrow> Q x) \<Longrightarrow> takeWhile P (filter Q xs) = filter Q (takeWhile P xs)"
  by (induction xs) auto

lemma takeWhile_stop:
  "\<forall>x \<in> set xs. P x \<Longrightarrow> \<not> P y \<Longrightarrow> takeWhile P (xs @ y # ys) = xs"
  by (induction xs) auto

lemma survive_step:
  assumes d: "distinct (cache_keys c)" and m: "col \<in> set (cache_keys c)"
    and b: "set (takeWhile (\<lambda>x. x \<noteq> col) (cache_keys c)) \<subseteq> S"
    and f: "finite S" and card: "card (insert k S - {col}) < maxsize"
  shows "col \<in> set (cache_keys (snd (modernize_column_name ai k c)))
         \<and> set (takeWhile (\<lambda>x. x \<noteq> col) (cache_keys (snd (modernize_column_name ai k c))))
             \<subseteq> insert k S - {col}"
proof -
  let ?ks = "cache_keys c"
  let ?pre = "takeWhile (\<lambda>x. x \<noteq> col) ?ks"
  have pre_no_col: "col \<notin> set ?pre" by (auto dest: set_takeWhileD)
  show ?thesis
  proof (cases "k = col")
    case True
    then show ?thesis using m by (simp add: keys_after)
  next
    case kc: False
    show ?thesis
    proof (cases "k \<in> set ?ks")
      case True
      have "takeWhile (\<lambda>x. x \<noteq> col) (filter (\<lambda>x. x \<noteq> k) ?ks) = filter (\<lambda>x. x \<noteq> k) ?pre"
        by (rule takeWhile_filter_commute) (use kc in auto)
      then show ?thesis using True kc m b pre_no_col by (auto simp: keys_after)
    next
      case False
      obtain post where split: "?ks = ?pre @ col # post"
      proof -
        have "dropWhile (\<lambda>x. x \<noteq> col) ?ks \<noteq> []" using m by (simp add: dropWhile_eq_Nil_conv)
        then obtain y post where dw: "dropWhile (\<lambda>x. x \<noteq> col) ?ks = y # post"
          by (cases "dropWhile (\<lambda>x. x \<noteq> col) ?ks") auto
        then have "\<not> (y \<noteq> col)" using hd_dropWhile[of "\<lambda>x. x \<noteq> col" ?ks] by auto
        then have "dropWhile (\<lambda>x. x \<noteq> col) ?ks = col # post" using dw by simp
        then have "?ks = ?pre @ col # post" by (metis takeWhile_dropWhile_id)
        then show ?thesis by (rule that)
      qed
      have dp: "distinct (k # ?pre)"
        using d False by (auto dest: set_takeWhileD)
      have sub: "set (k # ?pre) \<subseteq> insert k S - {col}"
        using b kc pre_no_col by auto
      have "finite (insert k S - {col})" using f by simp
      then have "card (set (k # ?pre)) \<le> card (insert k S - {col})"
        using sub by (rule card_mono)
      then have len: "length (k # ?pre) < maxsize"
        using dp card distinct_card[OF dp] by linarith
      have "take maxsize (k # ?ks) = take maxsize ((k # ?pre @ [col]) @ post)"
        using split by simp
      also have "\<dots> = (k # ?pre @ [col]) @ take (maxsize - length (k # ?pre @ [col])) post"
        using len by (simp only: take_append) simp
      finally have t: "take maxsize (k # ?ks)
                        = k # ?pre @ col # take (maxsize - length (k # ?pre @ [col])) post"
        by simp
      have k': "cache_keys (snd (modernize_column_name ai k c))
                  = k # ?pre @ col # take (maxsize - length (k # ?pre @ [col])) post"
        using False t by (simp add: keys_after)
      have tw: "takeWhile (\<lambda>x. x \<noteq> col)
                  (k # ?pre @ col # take (maxsize - length (k # ?pre @ [col])) post) = k # ?pre"
      proof -
        have "\<forall>x \<in> set ?pre. x \<noteq> col" using pre_no_col by auto
        then have "takeWhile (\<lambda>x. x \<noteq> col)
                     (?pre @ col # take (maxsize - length (k # ?pre @ [col])) post) = ?pre"
          by (rule takeWhile_stop) simp
        then show ?thesis using kc by simp
      qed
      show ?thesis unfolding k' tw using sub by simp
    qed
  qed
qed

lemma survive_all:
  assumes "distinct (cache_keys c)" and "col \<in> set (cache_keys c)"
    and "set (takeWhile (\<lambda>x. x \<noteq> col) (cache_keys c)) \<subseteq> S"
    and "finite S" and "card (S \<union> set others - {col}) < maxsize"
  shows "col \<in> set (cache_keys (modernize_all ai others c))"
  using assms
proof (induction others arbitrary: c S)
  case Nil
  then show ?case by simp
next
  case (Cons k others)
  let ?c1 = "snd (modernize_column_name ai k c)"
  have fin: "finite (S \<union> set (k # others) - {col})" using Cons.prems(4) by simp
  have "insert k S - {col} \<subseteq> S \<union> set (k # others) - {col}" by auto
  then have "card (insert k S - {col}) \<le> card (S \<union> set (k # others) - {col})"
    using fin by (intro card_mono)
  then have c1: "card (insert k S - {col}) < maxsize" using Cons.prems(5) by linarith
  from survive_step[OF Cons.prems(1,2,3,4) c1, of ai]
  have m1: "col \<in> set (cache_keys ?c1)"
    and b1: "set (takeWhile (\<lambda>x. x \<noteq> col) (cache_keys ?c1)) \<subseteq> insert k S - {col}"
    by simp_all
  have d1: "distinct (cache_keys ?c1)" using Cons.prems(1) by (rule keys_distinct_step)
  have f1: "finite (insert k S - {col})" using Cons.prems(4) by simp
  have "(insert k S - {col}) \<union> set others - {col} = S \<union> set (k # others) - {col}" by auto
  then have card1: "card ((insert k S - {col}) \<union> set others - {col}) < maxsize"
    using Cons.prems(5) by simp
  from Cons.IH[OF d1 m1 b1 f1 card1] show ?case by simp
qed

lemma cache_clear_keys: "cache_keys cache_clear = []"
  by (simp add: cache_keys_def cache_clear_def)

text \<open>
  C7, as amended. The cache never holds more than 1024 entries. Once a name has been
  resolved, and fewer than 1024 other distinct names have been resolved since, resolving
  that exact name again is a hit: it returns the stored mapping, which is what the body
  returns for the name, and the body does not run (the miss counter stays, the hit
  counter goes up by one).
\<close>

theorem cache_reuse_until_eviction:
  assumes "card (set others - {col}) < maxsize"
    and "cache2 = modernize_all ai others
                    (snd (modernize_column_name ai col (modernize_all ai earlier cache_clear)))"
  shows "fst (modernize_column_name ai col cache2) = modernize_column_name_wrapped ai col
         \<and> misses (snd (modernize_column_name ai col cache2)) = misses cache2
         \<and> hits (snd (modernize_column_name ai col cache2)) = hits cache2 + 1
         \<and> length (entries cache2) \<le> maxsize"
proof -
  let ?c0 = "modernize_all ai earlier cache_clear"
  let ?c1 = "snd (modernize_column_name ai col ?c0)"
  have d0: "distinct (cache_keys ?c0)"
    by (rule keys_distinct_all) (simp add: cache_clear_keys)
  have b0: "length (cache_keys ?c0) \<le> maxsize"
    by (rule keys_bounded_all) (simp add: cache_clear_keys)
  have d1: "distinct (cache_keys ?c1)" using d0 by (rule keys_distinct_step)
  have b1: "length (cache_keys ?c1) \<le> maxsize" using b0 by (rule keys_bounded_step)
  have hd1: "\<exists>rest. cache_keys ?c1 = col # rest"
    by (simp add: keys_after maxsize_def)
  then have m1: "col \<in> set (cache_keys ?c1)"
    and p1: "set (takeWhile (\<lambda>x. x \<noteq> col) (cache_keys ?c1)) \<subseteq> {}"
    by auto
  have card: "card ({} \<union> set others - {col}) < maxsize" using assms(1) by simp
  have m2: "col \<in> set (cache_keys cache2)"
    unfolding assms(2) by (rule survive_all[OF d1 m1 p1 _ card]) simp
  have ok2: "cache_ok ai cache2"
    unfolding assms(2) by (intro cache_ok_all cache_ok_step cache_ok_clear)
  have b2: "length (entries cache2) \<le> maxsize"
    using keys_bounded_all[OF b1, of ai others] by (simp add: assms(2) cache_keys_def)
  from m2 obtain v where v: "map_of (entries cache2) col = Some v"
    by (cases "map_of (entries cache2) col") (auto simp: cache_keys_def map_of_eq_None_iff)
  from hit_step[OF v, of ai] cached_result[OF ok2, of col] b2
  show ?thesis by simp
qed


lemma card_diff_length: "card (set xs - A) \<le> length xs"
  by (meson Diff_subset List.finite_set card_length card_mono le_trans)

theorem cache_reuse_until_eviction_witness:
  "card (set [''EMPNO'', ''QTY''] - {''CUSTNO''}) < maxsize
   \<and> fst (modernize_column_name no_ai ''CUSTNO''
            (modernize_all no_ai [''EMPNO'', ''QTY'']
               (snd (modernize_column_name no_ai ''CUSTNO'' (modernize_all no_ai [] cache_clear)))))
       = modernize_column_name_wrapped no_ai ''CUSTNO''
   \<and> misses (snd (modernize_column_name no_ai ''CUSTNO''
            (modernize_all no_ai [''EMPNO'', ''QTY'']
               (snd (modernize_column_name no_ai ''CUSTNO'' (modernize_all no_ai [] cache_clear))))))
       = misses (modernize_all no_ai [''EMPNO'', ''QTY'']
               (snd (modernize_column_name no_ai ''CUSTNO'' (modernize_all no_ai [] cache_clear))))"
proof -
  have "card (set [''EMPNO'', ''QTY''] - {''CUSTNO''}) \<le> length [''EMPNO'', ''QTY'']"
    by (rule card_diff_length)
  then have h: "card (set [''EMPNO'', ''QTY''] - {''CUSTNO''}) < maxsize"
    by (simp add: maxsize_def)
  from cache_reuse_until_eviction[OF h refl, of no_ai "[]"] h show ?thesis by blast
qed

section \<open>The pattern library does not compile\<close>

text \<open>
  C6. The claim has the content-inference stage classify the sample against the pattern
  library and return the dominant pattern. The code does not get there: building the
  list of patterns raises \<open>re.error\<close> at the second pattern, for every sample and every
  index. On the sample that holds the one value \<open>john@example.com\<close>, which the first
  pattern matches and which the claim sends to \<open>email\<close>, the prediction raises, and the
  upload of a table with such a placeholder column ends in the status 500.
\<close>

theorem pattern_library_raises:
  "pattern_based_prediction sample col_index = Inl bad_character_range
   \<and> match_email ''john@example.com''
   \<and> predict_column_name_from_data no_ai [Some ''john@example.com''] 0 = Inl bad_character_range
   \<and> fst (process_file
         (stub_library\<lparr>bytes_decode := (\<lambda>raw enc. Inr raw),
                        read_csv := (\<lambda>text sep. simple_read_csv text (Some '',''))\<rparr>)
         no_ai \<lparr>filename = Some ''contacts.csv'',
                 content = ''col_0,QTY\<newline>john@example.com,5''\<rparr> ''pandas'' cache_clear)
       = Inl (HTTPException 500
                (''File processing error: bad character range '' @ [CHR 0x5C] @ ''s-( at position 7''))"
proof (intro conjI)
  show "pattern_based_prediction sample col_index = Inl bad_character_range"
    by (rule pattern_based_prediction_raises)
  show "match_email ''john@example.com''"
    by code_simp
  show "predict_column_name_from_data no_ai [Some ''john@example.com''] 0 = Inl bad_character_range"
    by code_simp
  show "fst (process_file
         (stub_library\<lparr>bytes_decode := (\<lambda>raw enc. Inr raw),
                        read_csv := (\<lambda>text sep. simple_read_csv text (Some '',''))\<rparr>)
         no_ai \<lparr>filename = Some ''contacts.csv'',
                 content = ''col_0,QTY\<newline>john@example.com,5''\<rparr> ''pandas'' cache_clear)
       = Inl (HTTPException 500
                (''File processing error: bad character range '' @ [CHR 0x5C] @ ''s-( at position 7''))"
    by code_simp
qed

theorem pattern_library_raises_witness:
  "pattern_based_prediction [''active'', ''123'', ''pending''] 4 = Inl bad_character_range"
  using pattern_library_raises[of "[''active'', ''123'', ''pending'']" 4] by blast

section \<open>Fixed-width parsing\<close>


lemma split_ws_space: "isspace c \<Longrightarrow> split_ws (c # r) = split_ws r"
  by simp























end
